theory Spec2Isabelle
  imports Main
begin

section \<open>Calendar arithmetic underneath the date library\<close>

text \<open>
  The \<open>get\<close> command of tempo-planned-time-cli (class \<open>Get\<close>) handles dates through
  moment.js and moment-range, which read and write a JavaScript \<open>Date\<close>. A valid moment is
  modelled by its time value on the local time line, in milliseconds, as an \<^typ>\<open>int\<close>; the
  local zone is taken to have a fixed offset from UTC (no daylight-saving change inside the
  handled interval), so that adding a day adds \<open>msPerDay\<close>. The functions of this section
  are those of the ECMAScript definition of \<open>Date\<close> at day granularity: \<open>DayFromYear\<close>,
  \<open>YearFromTime\<close>, \<open>MonthFromTime\<close>, \<open>DateFromTime\<close> and \<open>MakeDay\<close>. Months are counted
  from 0, as \<open>Date\<close> and moment's field array do.
\<close>

definition msPerDay :: int where
  "msPerDay = 86400000"

definition isLeapYear :: "int \<Rightarrow> bool" where
  "isLeapYear y = ((y mod 4 = 0 \<and> y mod 100 \<noteq> 0) \<or> y mod 400 = 0)"

text \<open>moment's \<open>daysInMonth(year, month)\<close>, for a month index from 0 to 11.\<close>

definition daysInMonth :: "int \<Rightarrow> int \<Rightarrow> int" where
  "daysInMonth y m =
     (if m = 1 then (if isLeapYear y then 29 else 28) else 31 - ((m mod 7) mod 2))"

definition DayFromYear :: "int \<Rightarrow> int" where
  "DayFromYear y =
     365 * (y - 1970) + (y - 1969) div 4 - (y - 1901) div 100 + (y - 1601) div 400"

text \<open>
  \<open>YearFromTime\<close> is the largest year whose first day is not after the given day. It is
  computed by stepping up from an estimate that is never too large.
\<close>

function yearUp :: "int \<Rightarrow> int \<Rightarrow> int" where
  "yearUp d y = (if DayFromYear (y + 1) \<le> d then yearUp d (y + 1) else y)"
  by pat_completeness auto

definition YearFromDay :: "int \<Rightarrow> int" where
  "YearFromDay d = yearUp d (1970 + (if 0 \<le> d then d div 366 else d div 365))"

text \<open>The day within the year on which month \<open>m\<close> starts (the table of \<open>MonthFromTime\<close>).\<close>

definition monthStart :: "bool \<Rightarrow> int \<Rightarrow> int" where
  "monthStart leap m =
     (let l = (if leap then 1 else 0) in
      if m \<le> 0 then 0 else if m = 1 then 31 else if m = 2 then 59 + l
      else if m = 3 then 90 + l else if m = 4 then 120 + l else if m = 5 then 151 + l
      else if m = 6 then 181 + l else if m = 7 then 212 + l else if m = 8 then 243 + l
      else if m = 9 then 273 + l else if m = 10 then 304 + l else 334 + l)"

definition DayWithinYear :: "int \<Rightarrow> int" where
  "DayWithinYear d = d - DayFromYear (YearFromDay d)"

definition MonthFromDay :: "int \<Rightarrow> int" where
  "MonthFromDay d =
     (let leap = isLeapYear (YearFromDay d); w = DayWithinYear d in
      if w < monthStart leap 1 then 0 else if w < monthStart leap 2 then 1
      else if w < monthStart leap 3 then 2 else if w < monthStart leap 4 then 3
      else if w < monthStart leap 5 then 4 else if w < monthStart leap 6 then 5
      else if w < monthStart leap 7 then 6 else if w < monthStart leap 8 then 7
      else if w < monthStart leap 9 then 8 else if w < monthStart leap 10 then 9
      else if w < monthStart leap 11 then 10 else 11)"

definition DateFromDay :: "int \<Rightarrow> int" where
  "DateFromDay d =
     DayWithinYear d - monthStart (isLeapYear (YearFromDay d)) (MonthFromDay d) + 1"

definition MakeDay :: "int \<Rightarrow> int \<Rightarrow> int \<Rightarrow> int" where
  "MakeDay y m dt = DayFromYear y + monthStart (isLeapYear y) m + dt - 1"

section \<open>Strings and numbers\<close>

definition isDigit :: "char \<Rightarrow> bool" where
  "isDigit c = (c \<in> set ''0123456789'')"

definition digitChar :: "nat \<Rightarrow> char" where
  "digitChar n = ''0123456789'' ! n"

definition digitVal :: "char \<Rightarrow> int" where
  "digitVal c = int (of_char c) - 48"

text \<open>The decimal rendering of a natural number (\<open>'' + n\<close>).\<close>

fun decimal :: "nat \<Rightarrow> string" where
  "decimal n = (if n < 10 then [digitChar n] else decimal (n div 10) @ [digitChar (n mod 10)])"

text \<open>moment's \<open>toInt\<close> on a string of digits.\<close>

definition toInt :: "string \<Rightarrow> int" where
  "toInt s = foldl (\<lambda>a c. 10 * a + digitVal c) 0 s"

text \<open>moment's \<open>zeroFill(number, targetLength)\<close>, without a forced sign.\<close>

definition zeroFill :: "int \<Rightarrow> nat \<Rightarrow> string" where
  "zeroFill number targetLength =
     (let absNumber = decimal (nat \<bar>number\<bar>) in
      (if 0 \<le> number then [] else ''-'')
        @ replicate (targetLength - length absNumber) (CHR ''0'') @ absNumber)"

text \<open>\<open>s.lastIndexOf(c)\<close>: the index of the last occurrence, or -1.\<close>

definition lastIndexOf :: "string \<Rightarrow> char \<Rightarrow> int" where
  "lastIndexOf s c =
     (if c \<in> set s then int (length s) - 1 - int (length (takeWhile (\<lambda>x. x \<noteq> c) (rev s)))
      else - 1)"

text \<open>\<open>s.substring(i)\<close>; a negative index counts as 0.\<close>

definition substring :: "string \<Rightarrow> int \<Rightarrow> string" where
  "substring s i = drop (nat i) s"

section \<open>Moments\<close>

text \<open>
  A moment is either invalid (\<open>None\<close>; its \<open>valueOf()\<close> is \<open>NaN\<close>) or a time value.
  Every comparison with an invalid moment is false.
\<close>

type_synonym moment = "int option"

definition isValid :: "moment \<Rightarrow> bool" where
  "isValid m = (m \<noteq> None)"

definition num_lt :: "int option \<Rightarrow> int option \<Rightarrow> bool" where
  "num_lt a b = (case (a, b) of (Some x, Some y) \<Rightarrow> x < y | _ \<Rightarrow> False)"

definition num_le :: "int option \<Rightarrow> int option \<Rightarrow> bool" where
  "num_le a b = (case (a, b) of (Some x, Some y) \<Rightarrow> x \<le> y | _ \<Rightarrow> False)"

definition isAfter :: "moment \<Rightarrow> moment \<Rightarrow> bool" where
  "isAfter a b = num_lt b a"

definition isBefore :: "moment \<Rightarrow> moment \<Rightarrow> bool" where
  "isBefore a b = num_lt a b"

text \<open>moment's \<open>absFloor\<close> of a quotient: rounding towards zero.\<close>

definition absFloorDiv :: "int \<Rightarrow> int \<Rightarrow> int" where
  "absFloorDiv a b = (if a < 0 then - ((- a) div b) else a div b)"

text \<open>\<open>a.diff(b, 'days')\<close>; \<open>None\<close> stands for \<open>NaN\<close>.\<close>

definition diff_days :: "moment \<Rightarrow> moment \<Rightarrow> int option" where
  "diff_days a b =
     (case (a, b) of (Some x, Some y) \<Rightarrow> Some (absFloorDiv (x - y) msPerDay) | _ \<Rightarrow> None)"

definition startOf_day :: "moment \<Rightarrow> moment" where
  "startOf_day m = map_option (\<lambda>x. x - x mod msPerDay) m"

definition endOf_day :: "moment \<Rightarrow> moment" where
  "endOf_day m = map_option (\<lambda>x. x - x mod msPerDay + msPerDay - 1) m"

definition add_days :: "moment \<Rightarrow> int \<Rightarrow> moment" where
  "add_days m n = map_option (\<lambda>x. x + n * msPerDay) m"

text \<open>\<open>m.format('YYYY-MM-DD')\<close>.\<close>

definition format_day :: "int \<Rightarrow> string" where
  "format_day d =
     zeroFill (YearFromDay d) 4 @ ''-'' @ zeroFill (MonthFromDay d + 1) 2
       @ ''-'' @ zeroFill (DateFromDay d) 2"

definition format_ymd :: "moment \<Rightarrow> string" where
  "format_ymd m = (case m of None \<Rightarrow> ''Invalid date'' | Some x \<Rightarrow> format_day (x div msPerDay))"

subsection \<open>Parsing with a format, not strict\<close>

text \<open>
  \<open>moment(s, 'YYYY-MM-DD')\<close> is called without the strict flag. The format is split into
  the tokens \<open>YYYY\<close>, \<open>-\<close>, \<open>MM\<close>, \<open>-\<close>, \<open>DD\<close>; each token's regular expression is searched
  in what is left of the input, and the input is cut after the match. Without the strict
  flag \<open>YYYY\<close> is \<open>/\d{1,4}/\<close>, \<open>MM\<close> and \<open>DD\<close> are \<open>/\d\d?/\<close>, a token that finds nothing is
  skipped and text left over is ignored.
\<close>

definition match_digits :: "nat \<Rightarrow> string \<Rightarrow> (string \<times> string) option" where
  "match_digits n s =
     (case dropWhile (\<lambda>c. \<not> isDigit c) s of
        [] \<Rightarrow> None
      | r \<Rightarrow> (let t = take n (takeWhile isDigit r) in Some (t, drop (length t) r)))"

definition match_literal :: "char \<Rightarrow> string \<Rightarrow> string" where
  "match_literal c s = (if c \<in> set s then tl (dropWhile (\<lambda>x. x \<noteq> c) s) else s)"

definition parseTwoDigitYear :: "string \<Rightarrow> int" where
  "parseTwoDigitYear input = toInt input + (if toInt input > 68 then 1900 else 2000)"

text \<open>
  \<open>checkOverflow\<close> and the creation of the date at local midnight: a month outside 0..11
  or a day of the month outside the month makes the moment invalid.
\<close>

definition createChecked :: "int \<Rightarrow> int \<Rightarrow> int \<Rightarrow> moment" where
  "createChecked y m dt =
     (if m < 0 \<or> m > 11 then None
      else if dt < 1 \<or> dt > daysInMonth y m then None
      else Some (MakeDay y m dt * msPerDay))"

definition moment_parse :: "string \<Rightarrow> moment" where
  "moment_parse s =
     (case match_digits 4 s of
        None \<Rightarrow> None
      | Some (ys, r1) \<Rightarrow>
          (let year = (if length ys = 2 then parseTwoDigitYear ys else toInt ys) in
           case match_digits 2 (match_literal (CHR ''-'') r1) of
             None \<Rightarrow> createChecked year 0 1
           | Some (ms, r2) \<Rightarrow>
               (let month = toInt ms - 1 in
                case match_digits 2 (match_literal (CHR ''-'') r2) of
                  None \<Rightarrow> createChecked year month 1
                | Some (ds, r3) \<Rightarrow> createChecked year month (toInt ds))))"

subsection \<open>Durations\<close>

text \<open>
  \<open>moment.duration(s, 'seconds').humanize()\<close> in the English locale with the default
  thresholds, for a whole number of seconds. \<open>Math.round\<close> of a quotient \<open>a / b\<close> is
  taken on the exact quotient, \<open>(2 * a + b) div (2 * b)\<close>. moment divides in double
  precision, so for months and years its result can be one less where the exact quotient
  falls on a half (the first such value is 899373132 seconds, 28.5 years); up to a day,
  the range of a number of seconds per day, the two agree.
\<close>

definition roundDiv :: "int \<Rightarrow> int \<Rightarrow> int" where
  "roundDiv a b = (2 * a + b) div (2 * b)"

definition humanize :: "int \<Rightarrow> string" where
  "humanize secs =
     (let s = \<bar>secs\<bar>;
          minutes = roundDiv s 60;
          hours = roundDiv s 3600;
          days = roundDiv s 86400;
          months = roundDiv s 2629746;
          years = roundDiv s 31556952
      in if s \<le> 44 then ''a few seconds''
         else if s < 45 then decimal (nat s) @ '' seconds''
         else if minutes \<le> 1 then ''a minute''
         else if minutes < 45 then decimal (nat minutes) @ '' minutes''
         else if hours \<le> 1 then ''an hour''
         else if hours < 22 then decimal (nat hours) @ '' hours''
         else if days \<le> 1 then ''a day''
         else if days < 26 then decimal (nat days) @ '' days''
         else if months \<le> 1 then ''a month''
         else if months < 11 then decimal (nat months) @ '' months''
         else if years \<le> 1 then ''a year''
         else decimal (nat years) @ '' years'')"

subsection \<open>Ranges of moment-range\<close>

record range =
  range_start :: moment
  range_end :: moment

text \<open>\<open>moment.range(a, b)\<close> copies the two moments.\<close>

definition moment_range :: "moment \<Rightarrow> moment \<Rightarrow> range" where
  "moment_range a b = \<lparr>range_start = a, range_end = b\<rparr>"

text \<open>
  \<open>this.intersect(other)\<close> returns \<open>null\<close> (\<open>None\<close>) when the ranges share nothing. The
  ranges built by the command run from the start of a day to the end of a day, so they
  never have length zero.
\<close>

definition intersect :: "range \<Rightarrow> range \<Rightarrow> range option" where
  "intersect this other =
     (let start = range_start this; end = range_end this;
          otherStart = range_start other; otherEnd = range_end other
      in if num_le start otherStart \<and> num_lt otherStart end \<and> num_lt end otherEnd
           then Some (moment_range otherStart end)
         else if num_lt otherStart start \<and> num_lt start otherEnd \<and> num_le otherEnd end
           then Some (moment_range start otherEnd)
         else if num_lt otherStart start \<and> num_le start end \<and> num_lt end otherEnd
           then Some this
         else if num_le start otherStart \<and> num_le otherStart otherEnd \<and> num_le otherEnd end
           then Some (moment_range otherStart otherEnd)
         else None)"

text \<open>
  \<open>Array.from(r.by('days'))\<close>: the start plus \<open>iteration\<close> days for \<open>iteration\<close> = 0, 1, ...,
  as long as \<open>iteration\<close> does not exceed the absolute difference in whole days between
  start and end; nothing when that difference is \<open>NaN\<close>.
\<close>

definition by_days :: "range \<Rightarrow> moment list" where
  "by_days r =
     (case diff_days (range_start r) (range_end r) of
        None \<Rightarrow> []
      | Some n \<Rightarrow> map (\<lambda>i. add_days (range_start r) (int i)) [0..<nat \<bar>n\<bar> + 1])"

section \<open>The get command\<close>

subsection \<open>Data\<close>

text \<open>
  The errors the command can end with. The first five are raised by the command itself,
  with the message \<open>error_message\<close> gives; a \<open>TypeError\<close> is raised by the JavaScript
  engine when a property of \<open>null\<close> or \<open>undefined\<close> is read, with the engine's wording.
\<close>

datatype error =
    MissingConfig
  | ConflictingOptions
  | InvalidDate
  | RangeOrderError
  | RangeTooLarge
  | TypeError

definition error_message :: "error \<Rightarrow> string option" where
  "error_message e =
     (case e of
        MissingConfig \<Rightarrow>
          Some ''New install, who dis? It looks like you haven't run the config command yet to specify your account id and token.''
      | ConflictingOptions \<Rightarrow>
          Some ''Do you want tomorrow of the next week? Make up your mind!''
      | InvalidDate \<Rightarrow>
          Some ''Invalid dates provided. Dates must be formatted as YYYY-MM-DD.''
      | RangeOrderError \<Rightarrow> Some ''Provided fromDate occurs after toDate.''
      | RangeTooLarge \<Rightarrow>
          Some ''A maximum of 14 days of planned time can be requested at once. Please update the provided fromDate and/or toDate options.''
      | TypeError \<Rightarrow> None)"

text \<open>The user's arguments, as parsed by yargs.\<close>

record argv =
  fromDate :: string
  toDate :: string
  tomorrow :: bool
  week :: bool

text \<open>
  The configuration store holds JSON values; reading a key that is absent gives
  \<open>undefined\<close>.
\<close>

datatype jsvalue = JUndefined | JNull | JBool bool | JNum int | JStr string

type_synonym config = "string \<Rightarrow> jsvalue option"

definition config_get :: "config \<Rightarrow> string \<Rightarrow> jsvalue" where
  "config_get cfg k = (case cfg k of None \<Rightarrow> JUndefined | Some v \<Rightarrow> v)"

text \<open>The truth value JavaScript gives a value in a condition.\<close>

fun truthy :: "jsvalue \<Rightarrow> bool" where
  "truthy JUndefined = False"
| "truthy JNull = False"
| "truthy (JBool b) = b"
| "truthy (JNum n) = (n \<noteq> 0)"
| "truthy (JStr s) = (s \<noteq> [])"

text \<open>The text a value becomes inside a template literal.\<close>

fun js_to_string :: "jsvalue \<Rightarrow> string" where
  "js_to_string JUndefined = ''undefined''"
| "js_to_string JNull = ''null''"
| "js_to_string (JBool b) = (if b then ''true'' else ''false'')"
| "js_to_string (JNum n) = (if n < 0 then ''-'' else []) @ decimal (nat \<bar>n\<bar>)"
| "js_to_string (JStr s) = s"

text \<open>
  One entry of \<open>plan.dates.values\<close> and one plan of the Tempo API, with the fields the
  command reads: \<open>plan.planItem.self\<close>, \<open>plan.description\<close>, \<open>plan.secondsPerDay\<close> and
  \<open>plan.dates.values\<close>. The fields are taken to be present, numbers to be whole. A
  \<open>timePlannedSeconds\<close> that is absent or \<open>null\<close> is \<open>None\<close>.
\<close>

record planDateValues =
  dv_from :: string
  dv_to :: string
  timePlannedSeconds :: "int option"

record plan =
  planItem_self :: string
  description :: string
  secondsPerDay :: int
  dates_values :: "planDateValues list"

text \<open>The object \<open>planData\<close> that \<open>mapPlans\<close> puts under each day.\<close>

record planData =
  task :: string
  taskKey :: string
  pd_description :: string
  pd_secondsPerDay :: int
  plannedTime :: string

text \<open>
  The object \<open>mappedPlans\<close>: its keys are date strings, which JavaScript keeps in the
  order of their first insertion.
\<close>

type_synonym mappedPlans = "(string \<times> planData list) list"

fun obj_set :: "(string \<times> 'v) list \<Rightarrow> string \<Rightarrow> 'v \<Rightarrow> (string \<times> 'v) list" where
  "obj_set [] k v = [(k, v)]"
| "obj_set ((k', v') # kvs) k v =
     (if k' = k then (k, v) # kvs else (k', v') # obj_set kvs k v)"

text \<open>The request that \<open>execute\<close> sends once validation has passed.\<close>

record request =
  url :: string
  authorization :: string

subsection \<open>Validation\<close>

definition validateConfig :: "config \<Rightarrow> error + bool" where
  "validateConfig cfg =
     (let accountId = config_get cfg ''accountId'';
          token = config_get cfg ''token''
      in if \<not> truthy accountId \<or> \<not> truthy token then Inl MissingConfig else Inr True)"

definition validateArgs :: "argv \<Rightarrow> moment \<times> moment \<Rightarrow> error + bool" where
  "validateArgs a dates =
     (if tomorrow a \<and> week a then Inl ConflictingOptions
      else if \<not> isValid (fst dates) \<or> \<not> isValid (snd dates) then Inl InvalidDate
      else if isAfter (fst dates) (snd dates) then Inl RangeOrderError
      else if (case diff_days (snd dates) (fst dates) of None \<Rightarrow> False | Some n \<Rightarrow> n > 13)
        then Inl RangeTooLarge
      else Inr True)"

text \<open>
  \<open>getQueryFromAndToDates\<close>; \<open>now\<close> is the time value of \<open>this.moment()\<close>, the current
  time. The result is the pair \<open>(dates.from, dates.to)\<close>.
\<close>

definition getQueryFromAndToDates :: "int \<Rightarrow> argv \<Rightarrow> moment \<times> moment" where
  "getQueryFromAndToDates now a =
     (if tomorrow a then
        (let from = add_days (Some now) 1 in (from, from))
      else if week a then
        (let from = Some now in (from, add_days from 6))
      else (moment_parse (fromDate a), moment_parse (toDate a)))"

subsection \<open>Mapping plans onto days\<close>

text \<open>One step of the \<open>forEach\<close> in \<open>getPlanDateRanges\<close>.\<close>

definition planDateRange :: "planDateValues \<Rightarrow> range option" where
  "planDateRange v =
     (if (case timePlannedSeconds v of None \<Rightarrow> True | Some n \<Rightarrow> n = 0) then None
      else
        (let start = moment_parse (dv_from v); end = moment_parse (dv_to v) in
         if isBefore end start
         then Some (moment_range (startOf_day end) (endOf_day start))
         else Some (moment_range (startOf_day start) (endOf_day end))))"

definition getPlanDateRanges :: "plan \<Rightarrow> range list" where
  "getPlanDateRanges p = List.map_filter planDateRange (dates_values p)"

definition make_planData :: "plan \<Rightarrow> planData" where
  "make_planData p =
     \<lparr>task = planItem_self p,
      taskKey = substring (planItem_self p) (lastIndexOf (planItem_self p) (CHR ''/'') + 1),
      pd_description = description p,
      pd_secondsPerDay = secondsPerDay p,
      plannedTime = humanize (secondsPerDay p)\<rparr>"

text \<open>
  \<open>mappedPlans[planItemDate.format('YYYY-MM-DD')].push(planData)\<close> for each day of the
  applicable range; reading a key that is absent gives \<open>undefined\<close>, whose \<open>push\<close> raises.
\<close>

fun push_days :: "mappedPlans \<Rightarrow> planData \<Rightarrow> moment list \<Rightarrow> error + mappedPlans" where
  "push_days m pd [] = Inr m"
| "push_days m pd (d # ds) =
     (case map_of m (format_ymd d) of
        None \<Rightarrow> Inl TypeError
      | Some items \<Rightarrow> push_days (obj_set m (format_ymd d) (items @ [pd])) pd ds)"

text \<open>
  The inner \<open>forEach\<close> over the ranges of one plan. \<open>applicableRange.by('days')\<close> raises
  when the intersection is \<open>null\<close>.
\<close>

fun map_ranges :: "range \<Rightarrow> mappedPlans \<Rightarrow> plan \<Rightarrow> range list \<Rightarrow> error + mappedPlans" where
  "map_ranges queryRange m p [] = Inr m"
| "map_ranges queryRange m p (planRange # rs) =
     (case intersect queryRange planRange of
        None \<Rightarrow> Inl TypeError
      | Some applicableRange \<Rightarrow>
          (case push_days m (make_planData p) (by_days applicableRange) of
             Inl e \<Rightarrow> Inl e
           | Inr m' \<Rightarrow> map_ranges queryRange m' p rs))"

text \<open>The outer \<open>forEach\<close> over the plans.\<close>

fun map_each_plan :: "range \<Rightarrow> mappedPlans \<Rightarrow> plan list \<Rightarrow> error + mappedPlans" where
  "map_each_plan queryRange m [] = Inr m"
| "map_each_plan queryRange m (p # ps) =
     (case map_ranges queryRange m p (getPlanDateRanges p) of
        Inl e \<Rightarrow> Inl e
      | Inr m' \<Rightarrow> map_each_plan queryRange m' ps)"

definition init_days :: "range \<Rightarrow> mappedPlans" where
  "init_days queryRange =
     foldl (\<lambda>acc day. obj_set acc (format_ymd day) []) [] (by_days queryRange)"

definition mapPlans :: "moment \<Rightarrow> moment \<Rightarrow> plan list \<Rightarrow> error + mappedPlans" where
  "mapPlans from to plans =
     (let queryRange = moment_range (startOf_day from) (endOf_day to)
      in map_each_plan queryRange (init_days queryRange) plans)"

subsection \<open>Running the command\<close>

text \<open>
  \<open>execute\<close> up to the point where the request is sent: an error raised by validation is
  caught and printed, and then no request is made. What follows the response (\<open>mapPlans\<close>
  on the plans received, then the table) runs inside the promise, where an error raised by
  \<open>mapPlans\<close> is caught and printed in place of the table.
\<close>

definition execute :: "config \<Rightarrow> argv \<Rightarrow> int \<Rightarrow> error + request" where
  "execute cfg a now =
     (let accountId = config_get cfg ''accountId'';
          token = config_get cfg ''token''
      in case validateConfig cfg of
           Inl e \<Rightarrow> Inl e
         | Inr _ \<Rightarrow>
             (let dates = getQueryFromAndToDates now a in
              case validateArgs a dates of
                Inl e \<Rightarrow> Inl e
              | Inr _ \<Rightarrow>
                  Inr \<lparr>url = ''https://api.tempo.io/core/3/plans/user/'' @ js_to_string accountId
                         @ ''?from='' @ format_ymd (fst dates) @ ''&to='' @ format_ymd (snd dates),
                       authorization = ''bearer '' @ js_to_string token\<rparr>))"

subsection \<open>The exact date format, in the words of the specification\<close>

text \<open>
  The specification speaks of a string that parses under the exact format \<open>YYYY-MM-DD\<close>:
  four digits, a hyphen, two digits, a hyphen, two digits and nothing else, naming a month
  from 1 to 12 and a day of that month. This is what moment accepts when the strict flag is
  passed; the command does not pass it.
\<close>

definition exactFormat :: "string \<Rightarrow> bool" where
  "exactFormat s =
     (length s = 10 \<and> list_all isDigit (take 4 s) \<and> s ! 4 = CHR ''-''
      \<and> list_all isDigit (take 2 (drop 5 s)) \<and> s ! 7 = CHR ''-''
      \<and> list_all isDigit (drop 8 s))"

definition parsesExactly :: "string \<Rightarrow> bool" where
  "parsesExactly s =
     (exactFormat s \<and>
      (let y = toInt (take 4 s); m = toInt (take 2 (drop 5 s)); dt = toInt (drop 8 s)
       in 1 \<le> m \<and> m \<le> 12 \<and> 1 \<le> dt \<and> dt \<le> daysInMonth y (m - 1)))"

section \<open>Facts about the calendar\<close>

lemma div_step:
  fixes x n :: int
  assumes n: "0 < n"
  shows "(x + 1) div n = x div n + (if (x + 1) mod n = 0 then 1 else 0)"
proof -
  define q where "q = x div n"
  define r where "r = x mod n"
  have x: "x = n * q + r" and r0: "0 \<le> r" and rn: "r < n"
    using n by (simp_all add: q_def r_def)
  show ?thesis
  proof (cases "r + 1 = n")
    case True
    then have e: "x + 1 = n * (q + 1) + 0" using x by (simp add: algebra_simps)
    have "(x + 1) div n = q + 1"
      by (rule int_div_pos_eq [OF e]) (use n in auto)
    moreover have "(x + 1) mod n = 0"
      by (rule int_mod_pos_eq [OF e]) (use n in auto)
    ultimately show ?thesis by (simp add: q_def)
  next
    case False
    then have lt: "r + 1 < n" using rn by simp
    have e: "x + 1 = n * q + (r + 1)" using x by simp
    have "(x + 1) div n = q"
      by (rule int_div_pos_eq [OF e]) (use r0 lt in auto)
    moreover have "(x + 1) mod n = r + 1"
      by (rule int_mod_pos_eq [OF e]) (use r0 lt in auto)
    ultimately show ?thesis using r0 by (simp add: q_def)
  qed
qed

lemma mod_shift4: "((y::int) - 1968) mod 4 = y mod 4"
proof -
  have "(y - 1968) mod 4 = (y - 1968 mod 4) mod 4" by (simp only: mod_diff_right_eq)
  then show ?thesis by simp
qed
lemma mod_shift100: "((y::int) - 1900) mod 100 = y mod 100"
proof -
  have "(y - 1900) mod 100 = (y - 1900 mod 100) mod 100" by (simp only: mod_diff_right_eq)
  then show ?thesis by simp
qed
lemma mod_shift400: "((y::int) - 1600) mod 400 = y mod 400"
proof -
  have "(y - 1600) mod 400 = (y - 1600 mod 400) mod 400" by (simp only: mod_diff_right_eq)
  then show ?thesis by simp
qed
lemma m100_4: "(y::int) mod 100 = 0 \<Longrightarrow> y mod 4 = 0"
proof -
  assume "y mod 100 = 0"
  then have "100 dvd y" by (simp add: dvd_eq_mod_eq_0)
  moreover have "(4::int) dvd 100" by simp
  ultimately have "4 dvd y" by (rule dvd_trans [rotated])
  then show ?thesis by (simp add: dvd_eq_mod_eq_0)
qed
lemma m400_100: "(y::int) mod 400 = 0 \<Longrightarrow> y mod 100 = 0"
proof -
  assume "y mod 400 = 0"
  then have "400 dvd y" by (simp add: dvd_eq_mod_eq_0)
  moreover have "(100::int) dvd 400" by simp
  ultimately have "100 dvd y" by (rule dvd_trans [rotated])
  then show ?thesis by (simp add: dvd_eq_mod_eq_0)
qed

lemma DayFromYear_Suc:
  "DayFromYear (y + 1) = DayFromYear y + (if isLeapYear y then 366 else 365)"
proof -
  have a: "(y - 1968) div 4 = (y - 1969) div 4 + (if y mod 4 = 0 then 1 else 0)"
    using div_step [of 4 "y - 1969"] by (simp add: mod_shift4)
  have b: "(y - 1900) div 100 = (y - 1901) div 100 + (if y mod 100 = 0 then 1 else 0)"
    using div_step [of 100 "y - 1901"] by (simp add: mod_shift100)
  have c: "(y - 1600) div 400 = (y - 1601) div 400 + (if y mod 400 = 0 then 1 else 0)"
    using div_step [of 400 "y - 1601"] by (simp add: mod_shift400)
  have d: "DayFromYear (y + 1) =
      365 * (y - 1969) + (y - 1968) div 4 - (y - 1900) div 100 + (y - 1600) div 400"
    by (simp add: DayFromYear_def)
  show ?thesis
    unfolding d a b c
    using m100_4 [of y] m400_100 [of y]
    by (auto simp: DayFromYear_def isLeapYear_def)
qed

lemma DayFromYear_less: "DayFromYear y < DayFromYear (y + 1)"
  by (simp add: DayFromYear_Suc)

termination yearUp
proof (relation "measure (\<lambda>(d, y). nat (d - DayFromYear y))")
  show "wf (measure (\<lambda>(d, y). nat (d - DayFromYear y)))"
    by simp
next
  fix d y :: int
  assume "DayFromYear (y + 1) \<le> d"
  then show "((d, y + 1), (d, y)) \<in> measure (\<lambda>(d, y). nat (d - DayFromYear y))"
    using DayFromYear_less [of y] by simp
qed

declare yearUp.simps [simp del]

lemma yearUp_spec:
  "DayFromYear y \<le> d \<Longrightarrow>
     DayFromYear (yearUp d y) \<le> d \<and> d < DayFromYear (yearUp d y + 1)"
proof (induction d y rule: yearUp.induct)
  case (1 d y)
  show ?case
  proof (cases "DayFromYear (y + 1) \<le> d")
    case True
    with "1.IH" show ?thesis by (simp add: yearUp.simps [of d y])
  next
    case False
    with "1.prems" show ?thesis by (simp add: yearUp.simps [of d y])
  qed
qed

lemma DayFromYear_1970: "DayFromYear 1970 = 0"
  by (simp add: DayFromYear_def)

lemma DayFromYear_after: "DayFromYear (1970 + int k) \<le> 366 * int k"
proof (induction k)
  case 0
  then show ?case by (simp add: DayFromYear_1970)
next
  case (Suc k)
  have "DayFromYear (1970 + int k + 1) \<le> DayFromYear (1970 + int k) + 366"
    using DayFromYear_Suc [of "1970 + int k"] by (simp split: if_splits)
  moreover have "1970 + int (Suc k) = 1970 + int k + 1"
    by simp
  ultimately show ?case using Suc by (simp only:) simp
qed

lemma DayFromYear_before: "DayFromYear (1970 - int k) \<le> - 365 * int k"
proof (induction k)
  case 0
  then show ?case by (simp add: DayFromYear_1970)
next
  case (Suc k)
  have "DayFromYear (1970 - int (Suc k)) + 365 \<le> DayFromYear (1970 - int (Suc k) + 1)"
    using DayFromYear_Suc [of "1970 - int (Suc k)"] by (simp split: if_splits)
  moreover have "1970 - int (Suc k) + 1 = 1970 - int k"
    by simp
  ultimately show ?case using Suc by (simp only:) simp
qed

lemma year_estimate: "DayFromYear (1970 + (if 0 \<le> d then d div 366 else d div 365)) \<le> d"
proof (cases "0 \<le> d")
  case True
  then have k: "0 \<le> d div 366" by simp
  have "DayFromYear (1970 + int (nat (d div 366))) \<le> 366 * int (nat (d div 366))"
    by (rule DayFromYear_after)
  then have "DayFromYear (1970 + d div 366) \<le> 366 * (d div 366)" using k by simp
  also have "\<dots> \<le> d" by simp
  finally show ?thesis using True by simp
next
  case False
  then have k: "d div 365 < 0" by (simp add: div_neg_pos_less0)
  have "DayFromYear (1970 - int (nat (- (d div 365)))) \<le> - 365 * int (nat (- (d div 365)))"
    by (rule DayFromYear_before)
  then have "DayFromYear (1970 + d div 365) \<le> 365 * (d div 365)" using k by simp
  also have "\<dots> \<le> d" by simp
  finally show ?thesis using False by simp
qed

lemma YearFromDay_spec:
  "DayFromYear (YearFromDay d) \<le> d \<and> d < DayFromYear (YearFromDay d + 1)"
  unfolding YearFromDay_def by (rule yearUp_spec [OF year_estimate])


section \<open>Facts about digits and padded numbers\<close>

declare decimal.simps [simp del]

lemma digit_table: "map (\<lambda>k. digitVal (digitChar k)) [0..<10] = map int [0..<10]"
  by code_simp

lemma digitVal_digitChar: "n < 10 \<Longrightarrow> digitVal (digitChar n) = int n"
proof -
  assume n: "n < 10"
  then have "digitVal (digitChar n) = map (\<lambda>k. digitVal (digitChar k)) [0..<10] ! n"
    by simp
  also have "\<dots> = map int [0..<10] ! n"
    by (simp only: digit_table)
  also have "\<dots> = int n"
    using n by simp
  finally show ?thesis .
qed

lemma isDigit_digitChar: "n < 10 \<Longrightarrow> isDigit (digitChar n)"
proof -
  assume "n < 10"
  then have "digitChar n \<in> set ''0123456789''"
    unfolding digitChar_def by (intro nth_mem) simp
  then show ?thesis by (simp only: isDigit_def)
qed

lemma toInt_snoc: "toInt (xs @ [c]) = 10 * toInt xs + digitVal c"
  by (simp add: toInt_def)

lemma toInt_decimal: "toInt (decimal n) = int n"
proof (induction n rule: decimal.induct)
  case (1 n)
  show ?case
  proof (cases "n < 10")
    case True
    then show ?thesis
      by (simp add: decimal.simps [of n] toInt_def digitVal_digitChar)
  next
    case False
    then have "toInt (decimal n) = 10 * int (n div 10) + int (n mod 10)"
      using "1.IH" by (simp add: decimal.simps [of n] toInt_snoc digitVal_digitChar)
    also have "\<dots> = int (10 * (n div 10) + n mod 10)"
      by (simp only: of_nat_add of_nat_mult of_nat_numeral)
    also have "10 * (n div 10) + n mod 10 = n"
      by (rule mult_div_mod_eq)
    finally show ?thesis .
  qed
qed

lemma decimal_digits: "list_all isDigit (decimal n)"
proof (induction n rule: decimal.induct)
  case (1 n)
  then show ?case
    by (cases "n < 10") (simp_all add: decimal.simps [of n] isDigit_digitChar)
qed

lemma decimal_not_Nil: "decimal n \<noteq> []"
  by (cases "n < 10") (simp_all add: decimal.simps [of n])

lemma length_decimal_small: "n < 100 \<Longrightarrow> length (decimal n) \<le> 2"
proof -
  assume "n < 100"
  then have "n div 10 < 10"
    by simp
  then show ?thesis
    by (cases "n < 10") (simp_all add: decimal.simps [of n] decimal.simps [of "n div 10"])
qed

lemma toInt_zeros: "toInt (replicate k (CHR ''0'') @ xs) = toInt xs"
proof (induction k)
  case 0
  then show ?case by simp
next
  case (Suc k)
  have "toInt (CHR ''0'' # ys) = toInt ys" for ys
    by (simp add: toInt_def digitVal_def)
  with Suc show ?case by simp
qed

text \<open>The digits after the sign of a padded number.\<close>

lemma zeroFill_nonneg:
  "0 \<le> n \<Longrightarrow> zeroFill n k = replicate (k - length (decimal (nat n))) (CHR ''0'') @ decimal (nat n)"
  by (simp add: zeroFill_def Let_def)

lemma zeroFill_neg:
  "n < 0 \<Longrightarrow>
     zeroFill n k = CHR ''-'' # replicate (k - length (decimal (nat (- n)))) (CHR ''0'') @ decimal (nat (- n))"
  by (simp add: zeroFill_def Let_def)

lemma toInt_zeroFill: "0 \<le> n \<Longrightarrow> toInt (zeroFill n k) = n"
  by (simp add: zeroFill_nonneg toInt_zeros toInt_decimal)

lemma zeroFill_nonneg_digits: "0 \<le> n \<Longrightarrow> list_all isDigit (zeroFill n k)"
proof -
  have "isDigit (CHR ''0'')"
    by (simp add: isDigit_def)
  then have "list_all isDigit (replicate j (CHR ''0''))" for j
    by (simp add: list_all_iff)
  then show "0 \<le> n \<Longrightarrow> list_all isDigit (zeroFill n k)"
    by (simp add: zeroFill_nonneg decimal_digits)
qed

lemma zeroFill_nonneg_not_Nil: "0 \<le> n \<Longrightarrow> zeroFill n k \<noteq> []"
  by (simp add: zeroFill_nonneg decimal_not_Nil)

lemma length_zeroFill_2: "0 \<le> n \<Longrightarrow> n < 100 \<Longrightarrow> length (zeroFill n 2) = 2"
proof -
  assume n: "0 \<le> n" "n < 100"
  then have "length (decimal (nat n)) \<le> 2"
    by (intro length_decimal_small) simp
  then show ?thesis
    using n by (simp add: zeroFill_nonneg)
qed

lemma zeroFill_inj:
  assumes "zeroFill a k = zeroFill b k"
  shows "a = b"
proof -
  have mixed: False if "x < 0" "0 \<le> y" "zeroFill x k = zeroFill y k" for x y
  proof -
    from that(2) have "list_all isDigit (zeroFill y k)" "zeroFill y k \<noteq> []"
      by (simp_all add: zeroFill_nonneg_digits zeroFill_nonneg_not_Nil)
    then have "isDigit (hd (zeroFill y k))"
      by (cases "zeroFill y k") simp_all
    moreover have "hd (zeroFill x k) = CHR ''-''"
      using that(1) by (simp add: zeroFill_neg)
    ultimately show False
      using that(3) by (simp add: isDigit_def)
  qed
  show ?thesis
  proof (cases "0 \<le> a")
    case a: True
    show ?thesis
    proof (cases "0 \<le> b")
      case True
      with a assms show ?thesis
        by (metis toInt_zeroFill)
    next
      case False
      with a assms mixed [of b a] show ?thesis by simp
    qed
  next
    case a: False
    show ?thesis
    proof (cases "0 \<le> b")
      case True
      with a assms mixed [of a b] show ?thesis by simp
    next
      case False
      with a assms have
        "toInt (replicate (k - length (decimal (nat (- a)))) (CHR ''0'') @ decimal (nat (- a)))
          = toInt (replicate (k - length (decimal (nat (- b)))) (CHR ''0'') @ decimal (nat (- b)))"
        by (simp add: zeroFill_neg)
      then have "int (nat (- a)) = int (nat (- b))"
        by (simp only: toInt_zeros toInt_decimal)
      with a False show ?thesis by simp
    qed
  qed
qed


section \<open>Facts about the calendar fields of a day\<close>

lemma DayWithinYear_bounds:
  "0 \<le> DayWithinYear d"
  "DayWithinYear d < (if isLeapYear (YearFromDay d) then 366 else 365)"
  using YearFromDay_spec [of d] DayFromYear_Suc [of "YearFromDay d"]
  by (simp_all add: DayWithinYear_def)

lemma MonthFromDay_bounds: "0 \<le> MonthFromDay d" "MonthFromDay d \<le> 11"
  by (simp_all add: MonthFromDay_def Let_def)

lemma DateFromDay_bounds: "1 \<le> DateFromDay d" "DateFromDay d \<le> 31"
  using DayWithinYear_bounds [of d]
  by (auto simp: DateFromDay_def MonthFromDay_def monthStart_def Let_def split: if_splits)

lemma MakeDay_fields: "MakeDay (YearFromDay d) (MonthFromDay d) (DateFromDay d) = d"
  by (simp add: MakeDay_def DateFromDay_def DayWithinYear_def)

lemma format_day_inj:
  assumes "format_day d = format_day e"
  shows "d = e"
proof -
  define tail where
    "tail x = CHR ''-'' # zeroFill (MonthFromDay x + 1) 2 @ CHR ''-'' # zeroFill (DateFromDay x) 2"
    for x
  have fmt: "format_day x = zeroFill (YearFromDay x) 4 @ tail x" for x
    by (simp add: format_day_def tail_def)
  have lm: "length (zeroFill (MonthFromDay x + 1) 2) = 2" for x
    using MonthFromDay_bounds [of x] by (intro length_zeroFill_2) simp_all
  have ld: "length (zeroFill (DateFromDay x) 2) = 2" for x
    using DateFromDay_bounds [of x] by (intro length_zeroFill_2) simp_all
  have lt: "length (tail x) = 6" for x
    by (simp add: tail_def lm ld)
  from assms have "zeroFill (YearFromDay d) 4 @ tail d = zeroFill (YearFromDay e) 4 @ tail e"
    by (simp only: fmt)
  then have y: "zeroFill (YearFromDay d) 4 = zeroFill (YearFromDay e) 4"
    and t: "tail d = tail e"
    by (simp_all add: append_eq_append_conv lt)
  from t have "zeroFill (MonthFromDay d + 1) 2 @ CHR ''-'' # zeroFill (DateFromDay d) 2
      = zeroFill (MonthFromDay e + 1) 2 @ CHR ''-'' # zeroFill (DateFromDay e) 2"
    by (simp add: tail_def)
  then have m: "zeroFill (MonthFromDay d + 1) 2 = zeroFill (MonthFromDay e + 1) 2"
    and dt: "zeroFill (DateFromDay d) 2 = zeroFill (DateFromDay e) 2"
    by (simp_all add: append_eq_append_conv lm)
  have "YearFromDay d = YearFromDay e"
    using y by (rule zeroFill_inj)
  moreover have "MonthFromDay d + 1 = MonthFromDay e + 1"
    using m by (rule zeroFill_inj)
  moreover have "DateFromDay d = DateFromDay e"
    using dt by (rule zeroFill_inj)
  ultimately have "MakeDay (YearFromDay d) (MonthFromDay d) (DateFromDay d)
      = MakeDay (YearFromDay e) (MonthFromDay e) (DateFromDay e)"
    by simp
  then show ?thesis
    by (simp only: MakeDay_fields)
qed

lemma format_day_distinct: "distinct (map format_day [a..b])"
  by (simp add: distinct_map inj_on_def format_day_inj)


section \<open>Facts about moments\<close>

lemma msPerDay_pos: "0 < msPerDay"
  by (simp add: msPerDay_def)

lemma createChecked_midnight: "createChecked y m dt = Some x \<Longrightarrow> x mod msPerDay = 0"
  by (auto simp: createChecked_def split: if_splits)

lemma moment_parse_midnight: "moment_parse s = Some x \<Longrightarrow> x mod msPerDay = 0"
  unfolding moment_parse_def Let_def
  by (auto split: option.splits prod.splits dest: createChecked_midnight)

lemma absFloorDiv_nonneg: "0 \<le> a \<Longrightarrow> absFloorDiv a b = a div b"
  by (simp add: absFloorDiv_def)

lemma div_diff_multiple:
  fixes f t :: int
  assumes "(t - f) mod msPerDay = 0"
  shows "(t - f) div msPerDay = t div msPerDay - f div msPerDay"
proof -
  obtain k where k: "t - f = msPerDay * k"
    using assms by (auto simp: mod_eq_0_iff_dvd)
  then have t: "t = f + k * msPerDay"
    by (simp add: algebra_simps)
  have "t div msPerDay = f div msPerDay + k"
    unfolding t using msPerDay_pos by simp
  moreover have "(t - f) div msPerDay = k"
    unfolding k using msPerDay_pos by simp
  ultimately show ?thesis by simp
qed

lemma query_dates_aligned:
  assumes "getQueryFromAndToDates now a = (Some f, Some t)"
  shows "(t - f) mod msPerDay = 0"
proof (cases "tomorrow a")
  case True
  with assms show ?thesis
    by (auto simp: getQueryFromAndToDates_def add_days_def Let_def)
next
  case False
  show ?thesis
  proof (cases "week a")
    case True
    with assms \<open>\<not> tomorrow a\<close> show ?thesis
      by (auto simp: getQueryFromAndToDates_def add_days_def Let_def)
  next
    case False
    with assms \<open>\<not> tomorrow a\<close> have "f mod msPerDay = 0" "t mod msPerDay = 0"
      by (auto simp: getQueryFromAndToDates_def dest: moment_parse_midnight)
    then have "msPerDay dvd t" "msPerDay dvd f"
      by (simp_all add: mod_eq_0_iff_dvd)
    then have "msPerDay dvd t - f"
      by (rule dvd_diff)
    then show ?thesis
      by (simp add: mod_eq_0_iff_dvd)
  qed
qed

lemma validateArgs_valid:
  assumes "\<not> (tomorrow a \<and> week a)" "f \<le> t"
  shows "validateArgs a (Some f, Some t) =
           (if (t - f) div msPerDay > 13 then Inl RangeTooLarge else Inr True)"
  using assms
  by (simp add: validateArgs_def isValid_def isAfter_def num_lt_def diff_days_def
      absFloorDiv_nonneg)


section \<open>Facts about the plan interval extractor\<close>

lemma map_filter_append:
  "List.map_filter f (xs @ ys) = List.map_filter f xs @ List.map_filter f ys"
  by (simp add: List.map_filter_def)

lemma getPlanDateRanges_append:
  "getPlanDateRanges (p\<lparr>dates_values := xs @ ys\<rparr>)
     = List.map_filter planDateRange xs @ List.map_filter planDateRange ys"
  by (simp add: getPlanDateRanges_def map_filter_append)

lemma make_planData_dates_values:
  "make_planData (p\<lparr>dates_values := vs\<rparr>) = make_planData p"
  by (simp add: make_planData_def)

lemma map_each_plan_append:
  "map_each_plan q m (ps @ qs) =
     (case map_each_plan q m ps of Inl e \<Rightarrow> Inl e | Inr m' \<Rightarrow> map_each_plan q m' qs)"
  by (induction ps arbitrary: m) (auto split: sum.splits)

lemma map_each_plan_cong:
  assumes "getPlanDateRanges p = getPlanDateRanges p'"
    and "make_planData p = make_planData p'"
  shows "map_each_plan q m (ps @ [p] @ qs) = map_each_plan q m (ps @ [p'] @ qs)"
proof -
  have "map_ranges q m' p rs = map_ranges q m' p' rs" for m' rs
    by (induction rs arbitrary: m') (auto simp: assms(2) split: sum.splits option.splits)
  then show ?thesis
    by (simp add: map_each_plan_append assms(1) split: sum.splits)
qed

lemma planDateRange_skipped:
  "timePlannedSeconds v = None \<or> timePlannedSeconds v = Some 0 \<Longrightarrow> planDateRange v = None"
  by (auto simp: planDateRange_def)

lemma planDateRange_swap:
  assumes "moment_parse (dv_from v) = Some x" and "moment_parse (dv_to v) = Some y"
  shows "planDateRange (v\<lparr>dv_from := dv_to v, dv_to := dv_from v\<rparr>) = planDateRange v"
  using assms
  by (auto simp: planDateRange_def isBefore_def num_lt_def Let_def startOf_day_def
      endOf_day_def)


section \<open>Facts about parsing\<close>

lemma list_of_length_10:
  assumes "length s = 10"
  obtains a b c d e f g h i j where "s = [a, b, c, d, e, f, g, h, i, j]"
proof -
  from assms have "\<exists>a b c d e f g h i j. s = [a, b, c, d, e, f, g, h, i, j]"
    by (simp add: numeral_eq_Suc length_Suc_conv) blast
  then show ?thesis using that by blast
qed

lemma hyphen_not_digit: "\<not> isDigit (CHR ''-'')"
  by (simp add: isDigit_def)

lemma moment_parse_exact:
  assumes "parsesExactly s"
  shows "moment_parse s =
           Some (MakeDay (toInt (take 4 s)) (toInt (take 2 (drop 5 s)) - 1) (toInt (drop 8 s))
                   * msPerDay)"
proof -
  from assms have len: "length s = 10"
    by (simp add: parsesExactly_def exactFormat_def)
  then obtain a b c d e f g h i j where s0: "s = [a, b, c, d, e, f, g, h, i, j]"
    by (rule list_of_length_10)
  from assms have dig: "isDigit a" "isDigit b" "isDigit c" "isDigit d"
      "isDigit f" "isDigit g" "isDigit i" "isDigit j"
    and hy: "e = CHR ''-''" "h = CHR ''-''"
    by (simp_all add: parsesExactly_def exactFormat_def s0)
  have s: "s = [a, b, c, d, CHR ''-'', f, g, CHR ''-'', i, j]"
    by (simp add: s0 hy)
  from assms have rng: "1 \<le> toInt [f, g]" "toInt [f, g] \<le> 12" "1 \<le> toInt [i, j]"
      "toInt [i, j] \<le> daysInMonth (toInt [a, b, c, d]) (toInt [f, g] - 1)"
    by (simp_all add: parsesExactly_def s Let_def)
  have y: "match_digits 4 [a, b, c, d, CHR ''-'', f, g, CHR ''-'', i, j]
             = Some ([a, b, c, d], [CHR ''-'', f, g, CHR ''-'', i, j])"
    by (simp add: match_digits_def dig hyphen_not_digit)
  have m: "match_digits 2 [f, g, CHR ''-'', i, j] = Some ([f, g], [CHR ''-'', i, j])"
    by (simp add: match_digits_def dig hyphen_not_digit)
  have dd: "match_digits 2 [i, j] = Some ([i, j], [])"
    by (simp add: match_digits_def dig)
  show ?thesis
    using rng
    by (simp add: moment_parse_def y m dd match_literal_def createChecked_def s)
qed

lemma moment_parse_trailing:
  assumes "parsesExactly s"
  shows "moment_parse (s @ x) = moment_parse s"
proof -
  from assms have len: "length s = 10"
    by (simp add: parsesExactly_def exactFormat_def)
  then obtain a b c d e f g h i j where s0: "s = [a, b, c, d, e, f, g, h, i, j]"
    by (rule list_of_length_10)
  from assms have dig: "isDigit a" "isDigit b" "isDigit c" "isDigit d"
      "isDigit f" "isDigit g" "isDigit i" "isDigit j"
    and hy: "e = CHR ''-''" "h = CHR ''-''"
    by (simp_all add: parsesExactly_def exactFormat_def s0)
  have s: "s = [a, b, c, d, CHR ''-'', f, g, CHR ''-'', i, j]"
    by (simp add: s0 hy)
  have y: "match_digits 4 (a # b # c # d # CHR ''-'' # f # g # CHR ''-'' # i # j # x)
             = Some ([a, b, c, d], CHR ''-'' # f # g # CHR ''-'' # i # j # x)"
    by (simp add: match_digits_def dig hyphen_not_digit)
  have m: "match_digits 2 (f # g # CHR ''-'' # i # j # x) = Some ([f, g], CHR ''-'' # i # j # x)"
    by (simp add: match_digits_def dig hyphen_not_digit)
  have dd: "match_digits 2 (i # j # x) = Some ([i, j], x)"
    by (simp add: match_digits_def dig)
  from assms have rng: "1 \<le> toInt [f, g]" "toInt [f, g] \<le> 12" "1 \<le> toInt [i, j]"
      "toInt [i, j] \<le> daysInMonth (toInt [a, b, c, d]) (toInt [f, g] - 1)"
    by (simp_all add: parsesExactly_def s Let_def)
  have "moment_parse (s @ x)
      = Some (MakeDay (toInt [a, b, c, d]) (toInt [f, g] - 1) (toInt [i, j]) * msPerDay)"
    using rng
    by (simp add: moment_parse_def y m dd match_literal_def createChecked_def s)
  moreover have "moment_parse s
      = Some (MakeDay (toInt [a, b, c, d]) (toInt [f, g] - 1) (toInt [i, j]) * msPerDay)"
    using moment_parse_exact [OF assms] unfolding s by simp
  ultimately show ?thesis
    by (simp only:)
qed


section \<open>Facts about the object that maps days to items\<close>

lemma obj_set_fresh: "k \<notin> fst ` set m \<Longrightarrow> obj_set m k v = m @ [(k, v)]"
  by (induction m) auto

lemma obj_set_keys_if:
  "map fst (obj_set m k v) = (if k \<in> fst ` set m then map fst m else map fst m @ [k])"
  by (induction m) force+

lemma obj_set_keys: "k \<in> fst ` set m \<Longrightarrow> map fst (obj_set m k v) = map fst m"
  by (simp add: obj_set_keys_if)

lemma map_of_obj_set: "map_of (obj_set m k v) = (map_of m)(k \<mapsto> v)"
  by (induction m) auto

lemma map_of_Some_key: "map_of m k = Some v \<Longrightarrow> k \<in> fst ` set m"
  by (metis fst_conv image_eqI map_of_SomeD)

lemma init_fold:
  assumes "distinct (map format_ymd ds)"
    and "format_ymd ` set ds \<inter> fst ` set acc = {}"
  shows "foldl (\<lambda>acc day. obj_set acc (format_ymd day) []) acc ds
           = acc @ map (\<lambda>day. (format_ymd day, [])) ds"
  using assms
proof (induction ds arbitrary: acc)
  case Nil
  then show ?case by simp
next
  case (Cons d ds)
  from Cons.prems(2) have fresh: "format_ymd d \<notin> fst ` set acc"
    by auto
  have step: "obj_set acc (format_ymd d) [] = acc @ [(format_ymd d, [])]"
    by (rule obj_set_fresh [OF fresh])
  have "format_ymd ` set ds \<inter> fst ` set (acc @ [(format_ymd d, [])]) = {}"
    using Cons.prems by auto
  with Cons.IH [of "acc @ [(format_ymd d, [])]"] Cons.prems(1) show ?case
    by (simp add: step)
qed

section \<open>Facts about whole days\<close>

lemma day_start: "x - x mod msPerDay = x div msPerDay * msPerDay"
  by (simp add: minus_mod_eq_div_mult)

lemma startOf_day_Some: "startOf_day (Some x) = Some (x div msPerDay * msPerDay)"
  by (simp add: startOf_day_def day_start)

lemma endOf_day_Some: "endOf_day (Some x) = Some (x div msPerDay * msPerDay + msPerDay - 1)"
  by (simp add: endOf_day_def day_start)

lemma day_div: "0 \<le> r \<Longrightarrow> r < msPerDay \<Longrightarrow> (k * msPerDay + r) div msPerDay = k"
  using msPerDay_pos by simp

lemma format_ymd_aligned: "format_ymd (Some (k * msPerDay)) = format_day k"
  using msPerDay_pos by (simp add: format_ymd_def)

lemma by_days_aligned:
  assumes "c \<le> d"
  shows "by_days (moment_range (Some (c * msPerDay)) (Some (d * msPerDay + msPerDay - 1)))
           = map (\<lambda>i. Some ((c + int i) * msPerDay)) [0..<nat (d - c) + 1]"
proof -
  define X where "X = (d - c) * msPerDay + (msPerDay - 1)"
  have e: "c * msPerDay - (d * msPerDay + msPerDay - 1) = - X"
    by (simp add: X_def algebra_simps)
  have q: "X div msPerDay = d - c"
    unfolding X_def by (rule day_div) (simp_all add: msPerDay_def)
  have "0 \<le> (d - c) * msPerDay"
    using assms msPerDay_pos by simp
  then have pos: "0 < X"
    by (simp add: X_def msPerDay_def)
  then have "absFloorDiv (- X) msPerDay = - (d - c)"
    by (simp add: absFloorDiv_def q)
  then have "diff_days (Some (c * msPerDay)) (Some (d * msPerDay + msPerDay - 1))
      = Some (- (d - c))"
    by (simp only: diff_days_def prod.case option.case e)
  then show ?thesis
    using assms
    by (simp add: by_days_def moment_range_def add_days_def algebra_simps)
qed

lemma map_days_upto:
  assumes "c \<le> d"
  shows "map (\<lambda>i. g (c + int i)) [0..<nat (d - c) + 1] = map g [c..d]"
proof (rule nth_equalityI)
  show "length (map (\<lambda>i. g (c + int i)) [0..<nat (d - c) + 1]) = length (map g [c..d])"
    using assms by simp
next
  fix i
  assume "i < length (map (\<lambda>i. g (c + int i)) [0..<nat (d - c) + 1])"
  then have i: "i < nat (d - c) + 1"
    by simp
  then have "c + int i \<le> d"
    using assms by linarith
  then have "[c..d] ! i = c + int i"
    by (rule nth_upto)
  with i assms show "map (\<lambda>i. g (c + int i)) [0..<nat (d - c) + 1] ! i = map g [c..d] ! i"
    by (simp del: upt_Suc add: nth_map [of i "[c..d]"])
qed

lemma init_days_query:
  assumes "f \<le> t"
  shows "init_days (moment_range (startOf_day (Some f)) (endOf_day (Some t)))
           = map (\<lambda>k. (format_day k, [])) [f div msPerDay..t div msPerDay]"
proof -
  let ?a = "f div msPerDay" and ?b = "t div msPerDay"
  have ab: "?a \<le> ?b"
    using assms msPerDay_pos by (simp add: zdiv_mono1)
  let ?ds = "map (\<lambda>i. Some ((?a + int i) * msPerDay)) [0..<nat (?b - ?a) + 1]"
  have days: "by_days (moment_range (startOf_day (Some f)) (endOf_day (Some t))) = ?ds"
    by (simp only: startOf_day_Some endOf_day_Some by_days_aligned [OF ab])
  have keys: "map format_ymd ?ds = map format_day [?a..?b]"
    using map_days_upto [OF ab, of format_day]
    by (simp del: upt_Suc add: format_ymd_aligned comp_def)
  have "init_days (moment_range (startOf_day (Some f)) (endOf_day (Some t)))
          = [] @ map (\<lambda>day. (format_ymd day, [])) ?ds"
    unfolding init_days_def days
    by (rule init_fold) (simp_all only: keys format_day_distinct, simp)
  also have "\<dots> = map (\<lambda>k. (k, [])) (map format_ymd ?ds)"
    by (simp del: upt_Suc add: comp_def)
  also have "\<dots> = map (\<lambda>k. (format_day k, [])) [?a..?b]"
    by (simp only: keys) (simp add: comp_def)
  finally show ?thesis .
qed

section \<open>Facts about the loops of mapPlans\<close>

lemma push_days_keys: "push_days m pd ds = Inr m' \<Longrightarrow> map fst m' = map fst m"
proof (induction ds arbitrary: m)
  case Nil
  then show ?case by simp
next
  case (Cons d ds)
  then obtain items where items: "map_of m (format_ymd d) = Some items"
    and rest: "push_days (obj_set m (format_ymd d) (items @ [pd])) pd ds = Inr m'"
    by (auto split: option.splits)
  have "map fst m' = map fst (obj_set m (format_ymd d) (items @ [pd]))"
    by (rule Cons.IH [OF rest])
  also have "\<dots> = map fst m"
    by (rule obj_set_keys [OF map_of_Some_key [OF items]])
  finally show ?case .
qed

lemma map_ranges_keys: "map_ranges q m p rs = Inr m' \<Longrightarrow> map fst m' = map fst m"
proof (induction rs arbitrary: m)
  case Nil
  then show ?case by simp
next
  case (Cons r rs)
  then obtain ar m1 where "push_days m (make_planData p) (by_days ar) = Inr m1"
    and "map_ranges q m1 p rs = Inr m'"
    by (auto split: option.splits sum.splits)
  then show ?case
    using Cons.IH [of m1] push_days_keys [of m _ _ m1] by simp
qed

lemma map_each_plan_keys: "map_each_plan q m ps = Inr m' \<Longrightarrow> map fst m' = map fst m"
proof (induction ps arbitrary: m)
  case Nil
  then show ?case by simp
next
  case (Cons p ps)
  then obtain m1 where "map_ranges q m p (getPlanDateRanges p) = Inr m1"
    and "map_each_plan q m1 ps = Inr m'"
    by (auto split: sum.splits)
  then show ?case
    using Cons.IH [of m1] map_ranges_keys [of q m p _ m1] by simp
qed

lemma mapPlans_keys:
  assumes "f \<le> t" and "mapPlans (Some f) (Some t) plans = Inr m"
  shows "map fst m = map format_day [f div msPerDay..t div msPerDay]"
proof -
  have "map fst m
      = map fst (init_days (moment_range (startOf_day (Some f)) (endOf_day (Some t))))"
    using assms(2) unfolding mapPlans_def Let_def by (rule map_each_plan_keys)
  then show ?thesis
    by (simp add: init_days_query [OF assms(1)] comp_def)
qed


lemma push_days_prefix:
  "push_days m pd ds = Inr m' \<Longrightarrow> map_of m k = Some xs \<Longrightarrow> \<exists>ys. map_of m' k = Some (xs @ ys)"
proof (induction ds arbitrary: m xs)
  case Nil
  then show ?case by simp
next
  case (Cons d ds)
  then obtain items where items: "map_of m (format_ymd d) = Some items"
    and rest: "push_days (obj_set m (format_ymd d) (items @ [pd])) pd ds = Inr m'"
    by (auto split: option.splits)
  let ?m1 = "obj_set m (format_ymd d) (items @ [pd])"
  show ?case
  proof (cases "k = format_ymd d")
    case True
    with items Cons.prems(2) have "map_of ?m1 k = Some (xs @ [pd])"
      by (simp add: map_of_obj_set)
    from Cons.IH [OF rest this] show ?thesis
      by auto
  next
    case False
    with Cons.prems(2) have "map_of ?m1 k = Some xs"
      by (simp add: map_of_obj_set)
    from Cons.IH [OF rest this] show ?thesis .
  qed
qed

lemma push_days_member:
  "push_days m pd ds = Inr m' \<Longrightarrow> d \<in> set ds \<Longrightarrow>
     \<exists>xs. map_of m' (format_ymd d) = Some xs \<and> pd \<in> set xs"
proof (induction ds arbitrary: m)
  case Nil
  then show ?case by simp
next
  case (Cons d0 ds)
  then obtain items where items: "map_of m (format_ymd d0) = Some items"
    and rest: "push_days (obj_set m (format_ymd d0) (items @ [pd])) pd ds = Inr m'"
    by (auto split: option.splits)
  let ?m1 = "obj_set m (format_ymd d0) (items @ [pd])"
  show ?case
  proof (cases "d = d0")
    case True
    have "map_of ?m1 (format_ymd d) = Some (items @ [pd])"
      by (simp add: True map_of_obj_set)
    from push_days_prefix [OF rest this] show ?thesis
      by auto
  next
    case False
    with Cons.prems(2) have "d \<in> set ds"
      by simp
    from Cons.IH [OF rest this] show ?thesis .
  qed
qed

lemma map_ranges_prefix:
  "map_ranges q m p rs = Inr m' \<Longrightarrow> map_of m k = Some xs \<Longrightarrow> \<exists>ys. map_of m' k = Some (xs @ ys)"
proof (induction rs arbitrary: m xs)
  case Nil
  then show ?case by simp
next
  case (Cons r rs)
  then obtain ar m1 where push: "push_days m (make_planData p) (by_days ar) = Inr m1"
    and rest: "map_ranges q m1 p rs = Inr m'"
    by (auto split: option.splits sum.splits)
  from push_days_prefix [OF push Cons.prems(2)] obtain ys
    where "map_of m1 k = Some (xs @ ys)"
    by blast
  from Cons.IH [OF rest this] show ?case
    by auto
qed

lemma map_ranges_member:
  assumes "map_ranges q m p rs = Inr m'" and "r \<in> set rs"
  shows "\<exists>ar. intersect q r = Some ar
           \<and> (\<forall>d\<in>set (by_days ar).
                 \<exists>xs. map_of m' (format_ymd d) = Some xs \<and> make_planData p \<in> set xs)"
  using assms
proof (induction rs arbitrary: m)
  case Nil
  then show ?case by simp
next
  case (Cons r0 rs)
  then obtain ar m1 where ar: "intersect q r0 = Some ar"
    and push: "push_days m (make_planData p) (by_days ar) = Inr m1"
    and rest: "map_ranges q m1 p rs = Inr m'"
    by (auto split: option.splits sum.splits)
  show ?case
  proof (cases "r = r0")
    case True
    have "\<exists>xs. map_of m' (format_ymd d) = Some xs \<and> make_planData p \<in> set xs"
      if "d \<in> set (by_days ar)" for d
    proof -
      from push_days_member [OF push that] obtain xs
        where "map_of m1 (format_ymd d) = Some xs" and "make_planData p \<in> set xs"
        by blast
      with map_ranges_prefix [OF rest, of "format_ymd d" xs] show ?thesis
        by auto
    qed
    with ar True show ?thesis
      by blast
  next
    case False
    with Cons.prems(2) have "r \<in> set rs"
      by simp
    from Cons.IH [OF rest this] show ?thesis .
  qed
qed

lemma map_each_plan_prefix:
  "map_each_plan q m ps = Inr m' \<Longrightarrow> map_of m k = Some xs \<Longrightarrow>
     \<exists>ys. map_of m' k = Some (xs @ ys)"
proof (induction ps arbitrary: m xs)
  case Nil
  then show ?case by simp
next
  case (Cons p ps)
  then obtain m1 where one: "map_ranges q m p (getPlanDateRanges p) = Inr m1"
    and rest: "map_each_plan q m1 ps = Inr m'"
    by (auto split: sum.splits)
  from map_ranges_prefix [OF one Cons.prems(2)] obtain ys
    where "map_of m1 k = Some (xs @ ys)"
    by blast
  from Cons.IH [OF rest this] show ?case
    by auto
qed

lemma map_each_plan_member:
  assumes "map_each_plan q m ps = Inr m'" and "p \<in> set ps"
    and "r \<in> set (getPlanDateRanges p)"
  shows "\<exists>ar. intersect q r = Some ar
           \<and> (\<forall>d\<in>set (by_days ar).
                 \<exists>xs. map_of m' (format_ymd d) = Some xs \<and> make_planData p \<in> set xs)"
  using assms(1,2)
proof (induction ps arbitrary: m)
  case Nil
  then show ?case by simp
next
  case (Cons p0 ps)
  then obtain m1 where one: "map_ranges q m p0 (getPlanDateRanges p0) = Inr m1"
    and rest: "map_each_plan q m1 ps = Inr m'"
    by (auto split: sum.splits)
  show ?case
  proof (cases "p = p0")
    case True
    from map_ranges_member [OF one [folded True] assms(3)] obtain ar
      where ar: "intersect q r = Some ar"
        and mem: "\<forall>d\<in>set (by_days ar).
                 \<exists>xs. map_of m1 (format_ymd d) = Some xs \<and> make_planData p \<in> set xs"
      by blast
    have "\<exists>xs. map_of m' (format_ymd d) = Some xs \<and> make_planData p \<in> set xs"
      if "d \<in> set (by_days ar)" for d
    proof -
      from mem that obtain xs
        where "map_of m1 (format_ymd d) = Some xs" and "make_planData p \<in> set xs"
        by blast
      with map_each_plan_prefix [OF rest, of "format_ymd d" xs] show ?thesis
        by auto
    qed
    with ar show ?thesis
      by blast
  next
    case False
    with Cons.prems(2) have "p \<in> set ps"
      by simp
    from Cons.IH [OF rest this] show ?thesis .
  qed
qed

lemma push_days_error: "push_days m pd ds = Inl e \<Longrightarrow> e = TypeError"
  by (induction ds arbitrary: m) (auto split: option.splits)

lemma map_ranges_error: "map_ranges q m p rs = Inl e \<Longrightarrow> e = TypeError"
  by (induction rs arbitrary: m) (auto split: option.splits sum.splits dest: push_days_error)

lemma map_each_plan_error: "map_each_plan q m ps = Inl e \<Longrightarrow> e = TypeError"
  by (induction ps arbitrary: m) (auto split: sum.splits dest: map_ranges_error)

lemma map_each_plan_disjoint:
  assumes "p \<in> set ps" and "r \<in> set (getPlanDateRanges p)" and "intersect q r = None"
  shows "map_each_plan q m ps = Inl TypeError"
proof (cases "map_each_plan q m ps")
  case (Inl e)
  then show ?thesis
    using map_each_plan_error [OF Inl] by simp
next
  case (Inr m')
  from map_each_plan_member [OF Inr assms(1,2)] assms(3) show ?thesis
    by simp
qed

text \<open>
  For ranges that run from the start of day \<open>a\<close> to the end of day \<open>b\<close> and from the
  start of day \<open>c\<close> to the end of day \<open>e\<close>, \<open>intersect\<close> gives the days from the later start
  to the earlier end, and \<open>null\<close> when there is none.
\<close>

lemma intersect_days:
  assumes "a \<le> b" and "c \<le> e"
  shows "intersect (moment_range (Some (a * msPerDay)) (Some (b * msPerDay + msPerDay - 1)))
                   (moment_range (Some (c * msPerDay)) (Some (e * msPerDay + msPerDay - 1)))
           = (if e < a \<or> b < c then None
              else Some (moment_range (Some (max a c * msPerDay))
                                      (Some (min b e * msPerDay + msPerDay - 1))))"
  using assms
  by (auto simp: intersect_def num_le_def num_lt_def moment_range_def msPerDay_def Let_def
      max_def min_def)

lemma intersect_invalid:
  "range_start r = None \<or> range_end r = None \<Longrightarrow> intersect q r = None"
  by (auto simp: intersect_def num_le_def num_lt_def Let_def split: option.splits)


lemma keys_set: "map fst m' = map fst m \<Longrightarrow> fst ` set m' = fst ` set m"
  by (metis set_map)

lemma push_days_total:
  "format_ymd ` set ds \<subseteq> fst ` set m \<Longrightarrow> \<exists>m'. push_days m pd ds = Inr m'"
proof (induction ds arbitrary: m)
  case Nil
  then show ?case by simp
next
  case (Cons d ds)
  then have key: "format_ymd d \<in> fst ` set m"
    by simp
  then obtain items where items: "map_of m (format_ymd d) = Some items"
    by (metis map_of_eq_None_iff not_Some_eq)
  let ?m1 = "obj_set m (format_ymd d) (items @ [pd])"
  have "fst ` set ?m1 = fst ` set m"
    by (rule keys_set [OF obj_set_keys [OF key]])
  with Cons.prems have "format_ymd ` set ds \<subseteq> fst ` set ?m1"
    by simp
  from Cons.IH [OF this] show ?case
    by (simp add: items)
qed

lemma map_ranges_total:
  assumes "\<forall>r\<in>set rs. \<exists>ar. intersect q r = Some ar
             \<and> format_ymd ` set (by_days ar) \<subseteq> fst ` set m"
  shows "\<exists>m'. map_ranges q m p rs = Inr m'"
  using assms
proof (induction rs arbitrary: m)
  case Nil
  then show ?case by simp
next
  case (Cons r rs)
  then obtain ar where ar: "intersect q r = Some ar"
    and sub: "format_ymd ` set (by_days ar) \<subseteq> fst ` set m"
    by auto
  from push_days_total [OF sub] obtain m1
    where push: "push_days m (make_planData p) (by_days ar) = Inr m1"
    by blast
  have "fst ` set m1 = fst ` set m"
    by (rule keys_set [OF push_days_keys [OF push]])
  with Cons.prems have "\<forall>r\<in>set rs. \<exists>ar. intersect q r = Some ar
             \<and> format_ymd ` set (by_days ar) \<subseteq> fst ` set m1"
    by simp
  from Cons.IH [OF this] show ?case
    by (simp add: ar push)
qed

lemma map_each_plan_total:
  assumes "\<forall>p\<in>set ps. \<forall>r\<in>set (getPlanDateRanges p). \<exists>ar. intersect q r = Some ar
             \<and> format_ymd ` set (by_days ar) \<subseteq> fst ` set m"
  shows "\<exists>m'. map_each_plan q m ps = Inr m'"
  using assms
proof (induction ps arbitrary: m)
  case Nil
  then show ?case by simp
next
  case (Cons p ps)
  then have "\<forall>r\<in>set (getPlanDateRanges p). \<exists>ar. intersect q r = Some ar
             \<and> format_ymd ` set (by_days ar) \<subseteq> fst ` set m"
    by simp
  from map_ranges_total [OF this] obtain m1
    where one: "map_ranges q m p (getPlanDateRanges p) = Inr m1"
    by blast
  have "fst ` set m1 = fst ` set m"
    by (rule keys_set [OF map_ranges_keys [OF one]])
  with Cons.prems have "\<forall>p\<in>set ps. \<forall>r\<in>set (getPlanDateRanges p).
      \<exists>ar. intersect q r = Some ar \<and> format_ymd ` set (by_days ar) \<subseteq> fst ` set m1"
    by simp
  from Cons.IH [OF this] show ?case
    by (simp add: one)
qed

text \<open>The range of a sub-range with planned seconds, in whole days.\<close>

lemma planDateRange_days:
  assumes "timePlannedSeconds v = Some s" and "s \<noteq> 0"
    and "moment_parse (dv_from v) = Some x" and "moment_parse (dv_to v) = Some y"
  shows "planDateRange v
           = Some (moment_range (Some (min x y div msPerDay * msPerDay))
                                (Some (max x y div msPerDay * msPerDay + msPerDay - 1)))"
  using assms
  by (simp add: planDateRange_def isBefore_def num_lt_def startOf_day_Some endOf_day_Some
      min_def max_def)

lemma planDateRange_in_ranges:
  "v \<in> set (dates_values p) \<Longrightarrow> planDateRange v = Some r \<Longrightarrow> r \<in> set (getPlanDateRanges p)"
  by (force simp: getPlanDateRanges_def List.map_filter_def)

lemma ranges_from_values:
  "r \<in> set (getPlanDateRanges p) \<Longrightarrow> \<exists>v\<in>set (dates_values p). planDateRange v = Some r"
  by (auto simp: getPlanDateRanges_def List.map_filter_def)

lemma planDateRange_invalid:
  assumes "timePlannedSeconds v = Some s" and "s \<noteq> 0"
    and "moment_parse (dv_from v) = None \<or> moment_parse (dv_to v) = None"
  shows "\<exists>r. planDateRange v = Some r \<and> (range_start r = None \<or> range_end r = None)"
  using assms
  by (auto simp: planDateRange_def isBefore_def num_lt_def startOf_day_def endOf_day_def
      moment_range_def Let_def split: option.splits)

lemma window_days:
  assumes "f \<le> t"
  shows "moment_range (startOf_day (Some f)) (endOf_day (Some t))
           = moment_range (Some (f div msPerDay * msPerDay))
                          (Some (t div msPerDay * msPerDay + msPerDay - 1))"
    and "f div msPerDay \<le> t div msPerDay"
  using assms msPerDay_pos by (simp_all add: startOf_day_Some endOf_day_Some zdiv_mono1)

lemma by_days_keys:
  assumes "c \<le> e"
  shows "map format_ymd
           (by_days (moment_range (Some (c * msPerDay)) (Some (e * msPerDay + msPerDay - 1))))
         = map format_day [c..e]"
  using map_days_upto [OF assms, of format_day]
  by (simp del: upt_Suc add: by_days_aligned [OF assms] format_ymd_aligned comp_def)


lemma planDateRange_Some_seconds:
  "planDateRange v \<noteq> None \<Longrightarrow> \<exists>s. timePlannedSeconds v = Some s \<and> s \<noteq> 0"
  by (auto simp: planDateRange_def split: option.splits if_splits)

lemma div_min_max:
  "min x y div msPerDay = min (x div msPerDay) (y div msPerDay)"
  "max x y div msPerDay = max (x div msPerDay) (y div msPerDay)"
proof -
  show "min x y div msPerDay = min (x div msPerDay) (y div msPerDay)"
  proof (cases "x \<le> y")
    case True
    then have "x div msPerDay \<le> y div msPerDay"
      using msPerDay_pos by (simp add: zdiv_mono1)
    with True show ?thesis by (simp add: min_def)
  next
    case False
    then have "y div msPerDay \<le> x div msPerDay"
      using msPerDay_pos by (simp add: zdiv_mono1)
    with False show ?thesis by (simp add: min_def)
  qed
  show "max x y div msPerDay = max (x div msPerDay) (y div msPerDay)"
  proof (cases "x \<le> y")
    case True
    then have "x div msPerDay \<le> y div msPerDay"
      using msPerDay_pos by (simp add: zdiv_mono1)
    with True show ?thesis by (simp add: max_def)
  next
    case False
    then have "y div msPerDay \<le> x div msPerDay"
      using msPerDay_pos by (simp add: zdiv_mono1)
    with False show ?thesis by (simp add: max_def)
  qed
qed

lemma init_days_keys:
  assumes "f \<le> t"
  shows "fst ` set (init_days (moment_range (startOf_day (Some f)) (endOf_day (Some t))))
           = format_day ` {f div msPerDay..t div msPerDay}"
  by (simp add: init_days_query [OF assms] image_image)

text \<open>
  What \<open>mapPlans\<close> does with one sub-range that has planned seconds and two valid dates,
  on days \<open>c\<close> to \<open>e\<close>, for a query from day \<open>a\<close> to day \<open>b\<close>.
\<close>

lemma window_intersect:
  assumes "f \<le> t"
    and "timePlannedSeconds v = Some s" and "s \<noteq> 0"
    and "moment_parse (dv_from v) = Some x" and "moment_parse (dv_to v) = Some y"
  shows "intersect (moment_range (startOf_day (Some f)) (endOf_day (Some t)))
                   (the (planDateRange v))
           = (if max (x div msPerDay) (y div msPerDay) < f div msPerDay
                 \<or> t div msPerDay < min (x div msPerDay) (y div msPerDay)
              then None
              else Some (moment_range
                (Some (max (f div msPerDay) (min (x div msPerDay) (y div msPerDay)) * msPerDay))
                (Some (min (t div msPerDay) (max (x div msPerDay) (y div msPerDay)) * msPerDay
                        + msPerDay - 1))))"
proof -
  have ce: "min (x div msPerDay) (y div msPerDay) \<le> max (x div msPerDay) (y div msPerDay)"
    by simp
  show ?thesis
    unfolding planDateRange_days [OF assms(2-5)] window_days(1) [OF assms(1)] option.sel
      div_min_max
    by (rule intersect_days [OF window_days(2) [OF assms(1)] ce])
qed

lemma mapPlans_item_days:
  assumes "f \<le> t"
    and "mapPlans (Some f) (Some t) plans = Inr m"
    and "p \<in> set plans" and "v \<in> set (dates_values p)"
    and "timePlannedSeconds v = Some s" and "s \<noteq> 0"
    and "moment_parse (dv_from v) = Some x" and "moment_parse (dv_to v) = Some y"
  shows "\<not> (max (x div msPerDay) (y div msPerDay) < f div msPerDay
            \<or> t div msPerDay < min (x div msPerDay) (y div msPerDay))"
    and "\<forall>k\<in>{max (f div msPerDay) (min (x div msPerDay) (y div msPerDay))
              ..min (t div msPerDay) (max (x div msPerDay) (y div msPerDay))}.
           \<exists>items. map_of m (format_day k) = Some items \<and> make_planData p \<in> set items"
proof -
  let ?q = "moment_range (startOf_day (Some f)) (endOf_day (Some t))"
  let ?lo = "max (f div msPerDay) (min (x div msPerDay) (y div msPerDay))"
  let ?hi = "min (t div msPerDay) (max (x div msPerDay) (y div msPerDay))"
  obtain r where r: "planDateRange v = Some r"
    using planDateRange_days [OF assms(5-8)] by blast
  have rin: "r \<in> set (getPlanDateRanges p)"
    by (rule planDateRange_in_ranges [OF assms(4) r])
  have run: "map_each_plan ?q (init_days ?q) plans = Inr m"
    using assms(2) by (simp add: mapPlans_def Let_def)
  from map_each_plan_member [OF run assms(3) rin] obtain ar
    where ar: "intersect ?q r = Some ar"
      and mem: "\<forall>d\<in>set (by_days ar).
                 \<exists>xs. map_of m (format_ymd d) = Some xs \<and> make_planData p \<in> set xs"
    by blast
  have w: "intersect ?q r
           = (if max (x div msPerDay) (y div msPerDay) < f div msPerDay
                 \<or> t div msPerDay < min (x div msPerDay) (y div msPerDay)
              then None
              else Some (moment_range (Some (?lo * msPerDay))
                                      (Some (?hi * msPerDay + msPerDay - 1))))"
    using window_intersect [OF assms(1) assms(5-8)] by (simp add: r)
  from ar w show overlap: "\<not> (max (x div msPerDay) (y div msPerDay) < f div msPerDay
            \<or> t div msPerDay < min (x div msPerDay) (y div msPerDay))"
    by (auto split: if_splits)
  with ar w have ar_eq:
    "ar = moment_range (Some (?lo * msPerDay)) (Some (?hi * msPerDay + msPerDay - 1))"
    by (auto split: if_splits)
  have ab: "f div msPerDay \<le> t div msPerDay"
    by (rule window_days(2) [OF assms(1)])
  have lohi: "?lo \<le> ?hi"
    using overlap ab by auto
  have keys: "map format_ymd (by_days ar) = map format_day [?lo..?hi]"
    unfolding ar_eq by (rule by_days_keys [OF lohi])
  show "\<forall>k\<in>{?lo..?hi}.
           \<exists>items. map_of m (format_day k) = Some items \<and> make_planData p \<in> set items"
  proof
    fix k
    assume "k \<in> {?lo..?hi}"
    then have "format_day k \<in> set (map format_day [?lo..?hi])"
      by simp
    then have "format_day k \<in> set (map format_ymd (by_days ar))"
      by (simp only: keys)
    then obtain d where "d \<in> set (by_days ar)" and "format_ymd d = format_day k"
      by auto
    with mem show "\<exists>items. map_of m (format_day k) = Some items \<and> make_planData p \<in> set items"
      by metis
  qed
qed

lemma mapPlans_returns_iff:
  assumes "f \<le> t"
  shows "(\<exists>m. mapPlans (Some f) (Some t) plans = Inr m)
       = (\<forall>p\<in>set plans. \<forall>v\<in>set (dates_values p). planDateRange v \<noteq> None \<longrightarrow>
            (\<exists>x y. moment_parse (dv_from v) = Some x \<and> moment_parse (dv_to v) = Some y
               \<and> f div msPerDay \<le> max (x div msPerDay) (y div msPerDay)
               \<and> min (x div msPerDay) (y div msPerDay) \<le> t div msPerDay))"
proof
  let ?q = "moment_range (startOf_day (Some f)) (endOf_day (Some t))"
  assume "\<exists>m. mapPlans (Some f) (Some t) plans = Inr m"
  then obtain m where m: "mapPlans (Some f) (Some t) plans = Inr m"
    by blast
  then have run: "map_each_plan ?q (init_days ?q) plans = Inr m"
    by (simp add: mapPlans_def Let_def)
  show "\<forall>p\<in>set plans. \<forall>v\<in>set (dates_values p). planDateRange v \<noteq> None \<longrightarrow>
            (\<exists>x y. moment_parse (dv_from v) = Some x \<and> moment_parse (dv_to v) = Some y
               \<and> f div msPerDay \<le> max (x div msPerDay) (y div msPerDay)
               \<and> min (x div msPerDay) (y div msPerDay) \<le> t div msPerDay)"
  proof (intro ballI impI)
    fix p v
    assume p: "p \<in> set plans" and v: "v \<in> set (dates_values p)"
      and some: "planDateRange v \<noteq> None"
    from planDateRange_Some_seconds [OF some] obtain s
      where s: "timePlannedSeconds v = Some s" "s \<noteq> 0"
      by blast
    from some obtain r where r: "planDateRange v = Some r"
      by blast
    have rin: "r \<in> set (getPlanDateRanges p)"
      by (rule planDateRange_in_ranges [OF v r])
    from map_each_plan_member [OF run p rin] have inter: "intersect ?q r \<noteq> None"
      by auto
    have valid: "moment_parse (dv_from v) \<noteq> None \<and> moment_parse (dv_to v) \<noteq> None"
    proof (rule ccontr)
      assume "\<not> ?thesis"
      then have "moment_parse (dv_from v) = None \<or> moment_parse (dv_to v) = None"
        by simp
      from planDateRange_invalid [OF s this] r
      have "range_start r = None \<or> range_end r = None"
        by simp
      from intersect_invalid [OF this] inter show False
        by simp
    qed
    then obtain x y where xy: "moment_parse (dv_from v) = Some x" "moment_parse (dv_to v) = Some y"
      by blast
    from mapPlans_item_days(1) [OF assms m p v s xy]
    have "f div msPerDay \<le> max (x div msPerDay) (y div msPerDay)"
      and "min (x div msPerDay) (y div msPerDay) \<le> t div msPerDay"
      by linarith+
    with xy
    show "\<exists>x y. moment_parse (dv_from v) = Some x \<and> moment_parse (dv_to v) = Some y
               \<and> f div msPerDay \<le> max (x div msPerDay) (y div msPerDay)
               \<and> min (x div msPerDay) (y div msPerDay) \<le> t div msPerDay"
      by blast
  qed
next
  let ?q = "moment_range (startOf_day (Some f)) (endOf_day (Some t))"
  let ?a = "f div msPerDay" and ?b = "t div msPerDay"
  assume all: "\<forall>p\<in>set plans. \<forall>v\<in>set (dates_values p). planDateRange v \<noteq> None \<longrightarrow>
            (\<exists>x y. moment_parse (dv_from v) = Some x \<and> moment_parse (dv_to v) = Some y
               \<and> f div msPerDay \<le> max (x div msPerDay) (y div msPerDay)
               \<and> min (x div msPerDay) (y div msPerDay) \<le> t div msPerDay)"
  have ab: "?a \<le> ?b"
    by (rule window_days(2) [OF assms])
  have "\<exists>ar. intersect ?q r = Some ar
           \<and> format_ymd ` set (by_days ar) \<subseteq> fst ` set (init_days ?q)"
    if p: "p \<in> set plans" and rin: "r \<in> set (getPlanDateRanges p)" for p r
  proof -
    from ranges_from_values [OF rin] obtain v
      where v: "v \<in> set (dates_values p)" and r: "planDateRange v = Some r"
      by blast
    from all p v r obtain x y
      where xy: "moment_parse (dv_from v) = Some x" "moment_parse (dv_to v) = Some y"
        and ov: "?a \<le> max (x div msPerDay) (y div msPerDay)"
          "min (x div msPerDay) (y div msPerDay) \<le> ?b"
      by fastforce
    from planDateRange_Some_seconds [of v] r obtain s
      where s: "timePlannedSeconds v = Some s" "s \<noteq> 0"
      by auto
    let ?lo = "max ?a (min (x div msPerDay) (y div msPerDay))"
    let ?hi = "min ?b (max (x div msPerDay) (y div msPerDay))"
    let ?ar = "moment_range (Some (?lo * msPerDay)) (Some (?hi * msPerDay + msPerDay - 1))"
    have nd: "\<not> (max (x div msPerDay) (y div msPerDay) < ?a
                \<or> ?b < min (x div msPerDay) (y div msPerDay))"
      using ov by linarith
    have "intersect ?q (the (planDateRange v)) = Some ?ar"
      by (simp only: window_intersect [OF assms s xy] if_not_P [OF nd])
    then have i: "intersect ?q r = Some ?ar"
      by (simp only: r option.sel)
    have lohi: "?lo \<le> ?hi"
      using ov ab by auto
    have "set (map format_ymd (by_days ?ar)) = format_day ` {?lo..?hi}"
      by (simp only: by_days_keys [OF lohi]) simp
    moreover have "{?lo..?hi} \<subseteq> {?a..?b}"
      by auto
    ultimately have "format_ymd ` set (by_days ?ar) \<subseteq> fst ` set (init_days ?q)"
      unfolding init_days_keys [OF assms] by auto
    with i show ?thesis
      by blast
  qed
  then have "\<exists>m. map_each_plan ?q (init_days ?q) plans = Inr m"
    by (intro map_each_plan_total) blast
  then show "\<exists>m. mapPlans (Some f) (Some t) plans = Inr m"
    by (simp add: mapPlans_def Let_def)
qed


lemma mapPlans_error: "mapPlans qfrom qto plans = Inl e \<Longrightarrow> e = TypeError"
  unfolding mapPlans_def Let_def by (rule map_each_plan_error)

lemma mapPlans_TypeError_iff:
  assumes "f \<le> t"
  shows "(mapPlans (Some f) (Some t) plans = Inl TypeError)
       = (\<exists>p\<in>set plans. \<exists>v\<in>set (dates_values p). planDateRange v \<noteq> None \<and>
            \<not> (\<exists>x y. moment_parse (dv_from v) = Some x \<and> moment_parse (dv_to v) = Some y
               \<and> f div msPerDay \<le> max (x div msPerDay) (y div msPerDay)
               \<and> min (x div msPerDay) (y div msPerDay) \<le> t div msPerDay))"
proof -
  have "(mapPlans (Some f) (Some t) plans = Inl TypeError)
      = (\<not> (\<exists>m. mapPlans (Some f) (Some t) plans = Inr m))"
  proof (cases "mapPlans (Some f) (Some t) plans")
    case (Inl e)
    with mapPlans_error [OF Inl] show ?thesis
      by simp
  next
    case (Inr m)
    then show ?thesis
      by simp
  qed
  then show ?thesis
    unfolding mapPlans_returns_iff [OF assms] by blast
qed


section \<open>The date range resolver\<close>

text \<open>
  C7. When both the \<open>tomorrow\<close> and the \<open>week\<close> flag are set, validation of the arguments
  ends with \<open>ConflictingOptions\<close> whatever the two dates are (valid or not, in order or
  not, near or far apart), so this error comes before \<open>InvalidDate\<close>, \<open>RangeOrderError\<close>
  and \<open>RangeTooLarge\<close>; in particular it is the outcome for the dates resolved from any
  \<open>fromDate\<close> and \<open>toDate\<close> strings, and the outcome of the command once the
  configuration is in place.
\<close>

theorem conflicting_options_first:
  assumes "tomorrow a" and "week a"
  shows "validateArgs a dates = Inl ConflictingOptions
       \<and> validateArgs a (getQueryFromAndToDates now a) = Inl ConflictingOptions
       \<and> (validateConfig cfg = Inr True \<longrightarrow> execute cfg a now = Inl ConflictingOptions)"
  using assms by (simp add: validateArgs_def execute_def)

theorem conflicting_options_first_witness:
  "tomorrow \<lparr>fromDate = ''2020-01-10'', toDate = ''junk'', tomorrow = True, week = True\<rparr>
   \<and> week \<lparr>fromDate = ''2020-01-10'', toDate = ''junk'', tomorrow = True, week = True\<rparr>
   \<and> validateArgs \<lparr>fromDate = ''2020-01-10'', toDate = ''junk'', tomorrow = True, week = True\<rparr>
         (None, Some 0) = Inl ConflictingOptions
   \<and> validateArgs \<lparr>fromDate = ''2020-01-10'', toDate = ''junk'', tomorrow = True, week = True\<rparr>
         (getQueryFromAndToDates 1578650000000
            \<lparr>fromDate = ''2020-01-10'', toDate = ''junk'', tomorrow = True, week = True\<rparr>)
       = Inl ConflictingOptions"
  using conflicting_options_first
    [of "\<lparr>fromDate = ''2020-01-10'', toDate = ''junk'', tomorrow = True, week = True\<rparr>"
        "(None, Some 0)" 1578650000000 Map.empty]
  by simp

text \<open>
  C9. When exactly one of the two shorthand flags is set, the resolved dates do not depend
  on the \<open>fromDate\<close> and \<open>toDate\<close> strings: they are tomorrow twice, or now and six days
  from now. Validation of the arguments then succeeds, whatever the strings contain.
\<close>

theorem shorthand_ignores_dates:
  assumes "tomorrow a \<noteq> week a"
  shows "getQueryFromAndToDates now (a\<lparr>fromDate := f, toDate := t\<rparr>)
           = getQueryFromAndToDates now a
       \<and> getQueryFromAndToDates now a
           = (if tomorrow a then (Some (now + msPerDay), Some (now + msPerDay))
              else (Some now, Some (now + 6 * msPerDay)))
       \<and> validateArgs a (getQueryFromAndToDates now a) = Inr True"
proof -
  have "absFloorDiv (6 * msPerDay) msPerDay = 6"
    by (simp add: absFloorDiv_def msPerDay_def)
  with assms show ?thesis
    by (auto simp: getQueryFromAndToDates_def validateArgs_def add_days_def Let_def
        isValid_def isAfter_def num_lt_def diff_days_def absFloorDiv_def msPerDay_pos)
qed

theorem shorthand_ignores_dates_witness:
  "tomorrow \<lparr>fromDate = ''junk'', toDate = ''1999-12-31'', tomorrow = False, week = True\<rparr>
     \<noteq> week \<lparr>fromDate = ''junk'', toDate = ''1999-12-31'', tomorrow = False, week = True\<rparr>
   \<and> getQueryFromAndToDates 1578650000000
         \<lparr>fromDate = ''junk'', toDate = ''1999-12-31'', tomorrow = False, week = True\<rparr>
       = (Some 1578650000000, Some 1579168400000)
   \<and> validateArgs \<lparr>fromDate = ''junk'', toDate = ''1999-12-31'', tomorrow = False, week = True\<rparr>
         (getQueryFromAndToDates 1578650000000
            \<lparr>fromDate = ''junk'', toDate = ''1999-12-31'', tomorrow = False, week = True\<rparr>)
       = Inr True"
  using shorthand_ignores_dates
    [where a = "\<lparr>fromDate = ''junk'', toDate = ''1999-12-31'', tomorrow = False, week = True\<rparr>"
       and now = 1578650000000 and f = "''junk''" and t = "''1999-12-31''"]
  by (auto simp: msPerDay_def)

text \<open>
  C6. For resolved dates that are valid and in order (and not both shorthand flags set),
  validation ends with \<open>RangeTooLarge\<close> exactly when the difference in whole days exceeds
  13, that is when the number of calendar days from the first to the last, both included,
  exceeds 14. From 2020-01-10 to 2020-01-25 it does.
\<close>

theorem range_too_large_iff:
  assumes "getQueryFromAndToDates now a = (Some f, Some t)"
    and "f \<le> t"
    and "\<not> (tomorrow a \<and> week a)"
  shows "(validateArgs a (getQueryFromAndToDates now a) = Inl RangeTooLarge)
           = (diff_days (Some t) (Some f) \<noteq> None \<and> the (diff_days (Some t) (Some f)) > 13)
       \<and> (validateArgs a (getQueryFromAndToDates now a) = Inl RangeTooLarge)
           = (t div msPerDay - f div msPerDay + 1 > 14)
       \<and> validateArgs \<lparr>fromDate = ''2020-01-10'', toDate = ''2020-01-25'',
                        tomorrow = False, week = False\<rparr>
           (getQueryFromAndToDates now \<lparr>fromDate = ''2020-01-10'', toDate = ''2020-01-25'',
                        tomorrow = False, week = False\<rparr>) = Inl RangeTooLarge"
proof -
  have d: "(t - f) div msPerDay = t div msPerDay - f div msPerDay"
    by (rule div_diff_multiple [OF query_dates_aligned [OF assms(1)]])
  have v: "validateArgs a (Some f, Some t) =
             (if (t - f) div msPerDay > 13 then Inl RangeTooLarge else Inr True)"
    by (rule validateArgs_valid [OF assms(3) assms(2)])
  have e: "validateArgs \<lparr>fromDate = ''2020-01-10'', toDate = ''2020-01-25'',
                        tomorrow = False, week = False\<rparr>
           (getQueryFromAndToDates now \<lparr>fromDate = ''2020-01-10'', toDate = ''2020-01-25'',
                        tomorrow = False, week = False\<rparr>) = Inl RangeTooLarge"
    by code_simp
  show ?thesis
    using d v e assms(2) by (simp add: assms(1) diff_days_def absFloorDiv_nonneg)
qed

theorem range_too_large_iff_witness:
  "getQueryFromAndToDates 0 \<lparr>fromDate = ''2020-01-10'', toDate = ''2020-01-24'',
       tomorrow = False, week = False\<rparr> = (Some 1578614400000, Some 1579824000000)
   \<and> (1578614400000::int) \<le> 1579824000000
   \<and> validateArgs \<lparr>fromDate = ''2020-01-10'', toDate = ''2020-01-24'',
          tomorrow = False, week = False\<rparr> (Some 1578614400000, Some 1579824000000)
       = Inl RangeTooLarge
   \<and> (1579824000000::int) div msPerDay - 1578614400000 div msPerDay + 1 = 15"
proof -
  have q: "getQueryFromAndToDates 0 \<lparr>fromDate = ''2020-01-10'', toDate = ''2020-01-24'',
       tomorrow = False, week = False\<rparr> = (Some 1578614400000, Some 1579824000000)"
    by code_simp
  have n: "(1579824000000::int) div msPerDay - 1578614400000 div msPerDay + 1 = 15"
    by (simp add: msPerDay_def)
  show ?thesis
    using range_too_large_iff [OF q] q n
    by simp
qed

section \<open>The configuration check\<close>

text \<open>
  C10. \<open>validateConfig\<close> ends with \<open>MissingConfig\<close> exactly when the stored account id or
  the stored token is falsy. An empty string is treated as an absent key is, for either of
  the two. The command then ends with this error and makes no request.
\<close>

theorem missing_config_on_falsy:
  "(validateConfig cfg = Inl MissingConfig)
      = (\<not> truthy (config_get cfg ''accountId'') \<or> \<not> truthy (config_get cfg ''token''))
   \<and> (validateConfig cfg = Inl MissingConfig \<longrightarrow> execute cfg a now = Inl MissingConfig)
   \<and> validateConfig (cfg(''accountId'' \<mapsto> JStr [])) = Inl MissingConfig
   \<and> validateConfig (cfg(''accountId'' := None)) = Inl MissingConfig
   \<and> validateConfig (cfg(''token'' \<mapsto> JStr [])) = Inl MissingConfig
   \<and> validateConfig (cfg(''token'' := None)) = Inl MissingConfig"
  by (simp add: validateConfig_def execute_def config_get_def Let_def)

theorem missing_config_on_falsy_witness:
  "validateConfig [''accountId'' \<mapsto> JStr ''abc'', ''token'' \<mapsto> JStr []] = Inl MissingConfig
   \<and> execute [''accountId'' \<mapsto> JStr ''abc'', ''token'' \<mapsto> JStr []]
        \<lparr>fromDate = ''2020-01-10'', toDate = ''2020-01-12'', tomorrow = False, week = False\<rparr>
        1578650000000 = Inl MissingConfig"
  using missing_config_on_falsy
    [of "[''accountId'' \<mapsto> JStr ''abc'', ''token'' \<mapsto> JStr []]"
        "\<lparr>fromDate = ''2020-01-10'', toDate = ''2020-01-12'', tomorrow = False, week = False\<rparr>"
        1578650000000]
  by (simp add: config_get_def)


section \<open>The plan interval extractor\<close>

text \<open>
  C5. A sub-range whose \<open>from\<close> date is after its \<open>to\<close> date, with a planned-seconds value
  other than zero, gives the range from the start of the earlier day to the end of the
  later day; the extractor returns the same list of ranges, and \<open>mapPlans\<close> the same
  result, as for the sub-range with its two dates exchanged. The extractor has no error
  branch. For (2020-01-12, 2020-01-10) with 3600 seconds the output is that of
  (2020-01-10, 2020-01-12) with 3600 seconds: one range, from the first millisecond of
  2020-01-10 to the last millisecond of 2020-01-12.
\<close>

theorem reversed_subrange_swapped:
  assumes "moment_parse (dv_from v) = Some x"
    and "moment_parse (dv_to v) = Some y"
    and "y < x"
    and "timePlannedSeconds v = Some s"
    and "s \<noteq> 0"
  shows "planDateRange v
           = Some (moment_range (startOf_day (Some y)) (endOf_day (Some x)))
       \<and> getPlanDateRanges (p\<lparr>dates_values := vs @ [v] @ ws\<rparr>)
           = getPlanDateRanges
               (p\<lparr>dates_values := vs @ [v\<lparr>dv_from := dv_to v, dv_to := dv_from v\<rparr>] @ ws\<rparr>)
       \<and> mapPlans qfrom qto (ps @ [p\<lparr>dates_values := vs @ [v] @ ws\<rparr>] @ qs)
           = mapPlans qfrom qto
               (ps @ [p\<lparr>dates_values := vs @ [v\<lparr>dv_from := dv_to v, dv_to := dv_from v\<rparr>] @ ws\<rparr>]
                  @ qs)
       \<and> getPlanDateRanges
             (p\<lparr>dates_values :=
                  [\<lparr>dv_from = ''2020-01-12'', dv_to = ''2020-01-10'',
                    timePlannedSeconds = Some 3600\<rparr>]\<rparr>)
           = getPlanDateRanges
               (p\<lparr>dates_values :=
                    [\<lparr>dv_from = ''2020-01-10'', dv_to = ''2020-01-12'',
                      timePlannedSeconds = Some 3600\<rparr>]\<rparr>)
       \<and> getPlanDateRanges
             (p\<lparr>dates_values :=
                  [\<lparr>dv_from = ''2020-01-12'', dv_to = ''2020-01-10'',
                    timePlannedSeconds = Some 3600\<rparr>]\<rparr>)
           = [\<lparr>range_start = Some 1578614400000, range_end = Some 1578873599999\<rparr>]"
proof -
  let ?v' = "v\<lparr>dv_from := dv_to v, dv_to := dv_from v\<rparr>"
  have r: "planDateRange v
             = Some (moment_range (startOf_day (Some y)) (endOf_day (Some x)))"
    using assms by (simp add: planDateRange_def isBefore_def num_lt_def)
  have sw: "planDateRange ?v' = planDateRange v"
    by (rule planDateRange_swap [OF assms(1) assms(2)])
  have g: "getPlanDateRanges (p\<lparr>dates_values := vs @ [v] @ ws\<rparr>)
             = getPlanDateRanges (p\<lparr>dates_values := vs @ [?v'] @ ws\<rparr>)"
    by (simp add: getPlanDateRanges_def map_filter_append List.map_filter_simps sw)
  have m: "mapPlans qfrom qto (ps @ [p\<lparr>dates_values := vs @ [v] @ ws\<rparr>] @ qs)
             = mapPlans qfrom qto (ps @ [p\<lparr>dates_values := vs @ [?v'] @ ws\<rparr>] @ qs)"
    unfolding mapPlans_def Let_def
    by (rule map_each_plan_cong [OF g]) (simp add: make_planData_def)
  have p1: "moment_parse ''2020-01-12'' = Some 1578787200000"
    by code_simp
  have p2: "moment_parse ''2020-01-10'' = Some 1578614400000"
    by code_simp
  have c1: "getPlanDateRanges
             (p\<lparr>dates_values :=
                  [\<lparr>dv_from = ''2020-01-12'', dv_to = ''2020-01-10'',
                    timePlannedSeconds = Some 3600\<rparr>]\<rparr>)
           = [\<lparr>range_start = Some 1578614400000, range_end = Some 1578873599999\<rparr>]"
    by (simp add: getPlanDateRanges_def List.map_filter_simps planDateRange_def p1 p2
        isBefore_def num_lt_def moment_range_def startOf_day_def endOf_day_def msPerDay_def)
  have c2: "getPlanDateRanges
             (p\<lparr>dates_values :=
                  [\<lparr>dv_from = ''2020-01-10'', dv_to = ''2020-01-12'',
                    timePlannedSeconds = Some 3600\<rparr>]\<rparr>)
           = [\<lparr>range_start = Some 1578614400000, range_end = Some 1578873599999\<rparr>]"
    by (simp add: getPlanDateRanges_def List.map_filter_simps planDateRange_def p1 p2
        isBefore_def num_lt_def moment_range_def startOf_day_def endOf_day_def msPerDay_def)
  show ?thesis
    using r g m c1 c2 by simp
qed

theorem reversed_subrange_swapped_witness:
  "moment_parse ''2020-01-12'' = Some 1578787200000
   \<and> moment_parse ''2020-01-10'' = Some 1578614400000
   \<and> planDateRange \<lparr>dv_from = ''2020-01-12'', dv_to = ''2020-01-10'',
                      timePlannedSeconds = Some 3600\<rparr>
       = Some \<lparr>range_start = Some 1578614400000, range_end = Some 1578873599999\<rparr>"
proof -
  have p1: "moment_parse (dv_from \<lparr>dv_from = ''2020-01-12'', dv_to = ''2020-01-10'',
                      timePlannedSeconds = Some 3600\<rparr>) = Some 1578787200000"
    by code_simp
  have p2: "moment_parse (dv_to \<lparr>dv_from = ''2020-01-12'', dv_to = ''2020-01-10'',
                      timePlannedSeconds = Some 3600\<rparr>) = Some 1578614400000"
    by code_simp
  have lt: "(1578614400000::int) < 1578787200000"
    by simp
  have s: "timePlannedSeconds \<lparr>dv_from = ''2020-01-12'', dv_to = ''2020-01-10'',
                      timePlannedSeconds = Some 3600\<rparr> = Some 3600"
    by simp
  have nz: "(3600::int) \<noteq> 0"
    by simp
  show ?thesis
    using reversed_subrange_swapped [OF p1 p2 lt s nz] p1 p2
    by (simp add: moment_range_def startOf_day_def endOf_day_def msPerDay_def)
qed

text \<open>
  C8. A sub-range whose planned-seconds value is zero or absent is left out by the
  extractor, without an error and before its dates are read: the ranges of the plan, and
  the result of \<open>mapPlans\<close> for any query dates and any other plans, are those of the plan
  without that sub-range. No item comes from it on any day.
\<close>

theorem zero_seconds_excluded:
  assumes "timePlannedSeconds v = None \<or> timePlannedSeconds v = Some 0"
  shows "planDateRange v = None
       \<and> getPlanDateRanges (p\<lparr>dates_values := vs @ [v] @ ws\<rparr>)
           = getPlanDateRanges (p\<lparr>dates_values := vs @ ws\<rparr>)
       \<and> mapPlans qfrom qto (ps @ [p\<lparr>dates_values := vs @ [v] @ ws\<rparr>] @ qs)
           = mapPlans qfrom qto (ps @ [p\<lparr>dates_values := vs @ ws\<rparr>] @ qs)"
proof -
  have n: "planDateRange v = None"
    by (rule planDateRange_skipped [OF assms])
  have g: "getPlanDateRanges (p\<lparr>dates_values := vs @ [v] @ ws\<rparr>)
             = getPlanDateRanges (p\<lparr>dates_values := vs @ ws\<rparr>)"
    by (simp add: getPlanDateRanges_def map_filter_append List.map_filter_simps n)
  have "mapPlans qfrom qto (ps @ [p\<lparr>dates_values := vs @ [v] @ ws\<rparr>] @ qs)
          = mapPlans qfrom qto (ps @ [p\<lparr>dates_values := vs @ ws\<rparr>] @ qs)"
    unfolding mapPlans_def Let_def
    by (rule map_each_plan_cong [OF g]) (simp add: make_planData_def)
  with n g show ?thesis by simp
qed

theorem zero_seconds_excluded_witness:
  "timePlannedSeconds \<lparr>dv_from = ''2020-01-11'', dv_to = ''not a date'',
       timePlannedSeconds = Some 0\<rparr> = Some 0
   \<and> mapPlans (Some 1578614400000) (Some 1578787200000)
        [\<lparr>planItem_self = ''https://api.tempo.io/core/3/issue/ABC-123'',
          description = ''Fix bug'', secondsPerDay = 7200,
          dates_values =
            [\<lparr>dv_from = ''2020-01-11'', dv_to = ''not a date'', timePlannedSeconds = Some 0\<rparr>]\<rparr>]
       = Inr [(''2020-01-10'', []), (''2020-01-11'', []), (''2020-01-12'', [])]"
proof -
  let ?v = "\<lparr>dv_from = ''2020-01-11'', dv_to = ''not a date'', timePlannedSeconds = Some 0\<rparr>"
  let ?p = "\<lparr>planItem_self = ''https://api.tempo.io/core/3/issue/ABC-123'',
          description = ''Fix bug'', secondsPerDay = 7200, dates_values = []\<rparr>"
  have h: "timePlannedSeconds ?v = None \<or> timePlannedSeconds ?v = Some 0"
    by simp
  have e: "mapPlans (Some 1578614400000) (Some 1578787200000) [?p]
             = Inr [(''2020-01-10'', []), (''2020-01-11'', []), (''2020-01-12'', [])]"
    by code_simp
  show ?thesis
    using zero_seconds_excluded [OF h, where p = ?p and vs = "[]" and ws = "[]"
        and qfrom = "Some 1578614400000" and qto = "Some 1578787200000"
        and ps = "[]" and qs = "[]"] e
    by simp
qed


section \<open>Dates given as strings\<close>

text \<open>
  C4 does not hold of the code. The command says that dates must be formatted as
  \<open>YYYY-MM-DD\<close>, but it parses them without moment's strict flag, so a string that is not
  of the exact format is not always rejected with \<open>InvalidDate\<close>: any text after a date of
  the exact format is ignored, and the resolver (neither shorthand flag set) accepts the
  string as that date. Likewise \<open>2020-1-5\<close>, without the zero padding, is read as
  2020-01-05, and \<open>12020-01-10\<close>, with five digits for the year, as 1202-01-10.
\<close>

theorem inexact_dates_accepted:
  assumes "parsesExactly s" and "x \<noteq> []"
    and "\<not> tomorrow a" and "\<not> week a"
    and "fromDate a = s @ x" and "toDate a = s"
  shows "\<not> parsesExactly (fromDate a)
       \<and> getQueryFromAndToDates now a = (moment_parse s, moment_parse s)
       \<and> validateArgs a (getQueryFromAndToDates now a) = Inr True
       \<and> \<not> parsesExactly ''2020-1-5''
       \<and> moment_parse ''2020-1-5'' = moment_parse ''2020-01-05''
       \<and> \<not> parsesExactly ''12020-01-10''
       \<and> moment_parse ''12020-01-10'' = moment_parse ''1202-01-10''
       \<and> moment_parse ''1202-01-10'' \<noteq> None"
proof -
  have n: "\<not> parsesExactly (fromDate a)"
    using assms(1,2) by (simp add: assms(5) parsesExactly_def exactFormat_def)
  have q: "getQueryFromAndToDates now a = (moment_parse s, moment_parse s)"
    using assms(3,4)
    by (simp add: getQueryFromAndToDates_def assms(5,6) moment_parse_trailing [OF assms(1)])
  obtain v where v: "moment_parse s = Some v"
    using moment_parse_exact [OF assms(1)] by blast
  have r: "validateArgs a (getQueryFromAndToDates now a) = Inr True"
    using assms(3)
    by (simp add: q v validateArgs_def isValid_def isAfter_def num_lt_def diff_days_def
        absFloorDiv_def)
  have c1: "\<not> parsesExactly ''2020-1-5''"
    by code_simp
  have c2: "moment_parse ''2020-1-5'' = moment_parse ''2020-01-05''"
    by code_simp
  have c3: "\<not> parsesExactly ''12020-01-10''"
    by code_simp
  have c4: "moment_parse ''12020-01-10'' = moment_parse ''1202-01-10''"
    by code_simp
  have c5: "moment_parse ''1202-01-10'' \<noteq> None"
    by code_simp
  from n q r c1 c2 c3 c4 c5 show ?thesis
    by blast
qed

theorem inexact_dates_accepted_witness:
  "parsesExactly ''2020-01-10''
   \<and> \<not> parsesExactly ''2020-01-10xyz''
   \<and> validateArgs
        \<lparr>fromDate = ''2020-01-10xyz'', toDate = ''2020-01-10'', tomorrow = False, week = False\<rparr>
        (getQueryFromAndToDates 1578650000000
          \<lparr>fromDate = ''2020-01-10xyz'', toDate = ''2020-01-10'', tomorrow = False, week = False\<rparr>)
       = Inr True
   \<and> getQueryFromAndToDates 1578650000000
        \<lparr>fromDate = ''2020-01-10xyz'', toDate = ''2020-01-10'', tomorrow = False, week = False\<rparr>
       = (moment_parse ''2020-01-10'', moment_parse ''2020-01-10'')"
proof -
  let ?a = "\<lparr>fromDate = ''2020-01-10xyz'', toDate = ''2020-01-10'',
              tomorrow = False, week = False\<rparr>"
  have h1: "parsesExactly ''2020-01-10''"
    by code_simp
  have h2: "''xyz'' \<noteq> []"
    by simp
  have h3: "\<not> tomorrow ?a" and h4: "\<not> week ?a"
    by simp_all
  have h5: "fromDate ?a = ''2020-01-10'' @ ''xyz''" and h6: "toDate ?a = ''2020-01-10''"
    by simp_all
  from inexact_dates_accepted [OF h1 h2 h3 h4 h5 h6, of 1578650000000]
  have "\<not> parsesExactly (fromDate ?a)"
    and "getQueryFromAndToDates 1578650000000 ?a
           = (moment_parse ''2020-01-10'', moment_parse ''2020-01-10'')"
    and "validateArgs ?a (getQueryFromAndToDates 1578650000000 ?a) = Inr True"
    by blast+
  moreover have "fromDate ?a = ''2020-01-10xyz''"
    by simp
  ultimately show ?thesis
    using h1 by (simp only:) blast
qed


section \<open>The day mapper\<close>

text \<open>
  C3 does not hold of the code for every list of plans. For query dates \<open>f \<le> t\<close> (any
  distance apart, so also within 14 days), \<open>mapPlans\<close> either returns a mapping whose
  keys, in the order of iteration, are the \<open>YYYY-MM-DD\<close> renderings of the calendar days
  from the day of \<open>f\<close> to the day of \<open>t\<close> in ascending order (one key per day, all
  different, \<open>to - from + 1\<close> of them), or it raises a \<open>TypeError\<close> and returns no mapping
  at all. It raises exactly when some sub-range with planned seconds has a date that does
  not parse or lies wholly outside the query interval: the missing test of \<open>intersect\<close>'s
  \<open>null\<close>, as in C2. With no plans the mapping is returned, with an empty list under every
  day.
\<close>

theorem day_mapping_keys_or_type_error:
  assumes "f \<le> t"
  shows "(mapPlans (Some f) (Some t) plans = Inl TypeError
          \<or> (\<exists>m. mapPlans (Some f) (Some t) plans = Inr m
                \<and> map fst m = map format_day [f div msPerDay..t div msPerDay]
                \<and> length m = nat (t div msPerDay - f div msPerDay + 1)
                \<and> distinct (map fst m)
                \<and> (\<forall>i<length m. fst (m ! i) = format_day (f div msPerDay + int i))))
       \<and> (mapPlans (Some f) (Some t) plans = Inl TypeError)
           = (\<exists>p\<in>set plans. \<exists>v\<in>set (dates_values p). planDateRange v \<noteq> None \<and>
                \<not> (\<exists>x y. moment_parse (dv_from v) = Some x \<and> moment_parse (dv_to v) = Some y
                   \<and> f div msPerDay \<le> max (x div msPerDay) (y div msPerDay)
                   \<and> min (x div msPerDay) (y div msPerDay) \<le> t div msPerDay))
       \<and> mapPlans (Some f) (Some t) []
            = Inr (map (\<lambda>k. (format_day k, [])) [f div msPerDay..t div msPerDay])"
proof -
  let ?a = "f div msPerDay" and ?b = "t div msPerDay"
  have ab: "?a \<le> ?b"
    by (rule window_days(2) [OF assms])
  have keys: "map fst m = map format_day [?a..?b]
            \<and> length m = nat (?b - ?a + 1)
            \<and> distinct (map fst m)
            \<and> (\<forall>i<length m. fst (m ! i) = format_day (?a + int i))"
    if ret: "mapPlans (Some f) (Some t) plans = Inr m" for m
  proof -
    have k: "map fst m = map format_day [?a..?b]"
      by (rule mapPlans_keys [OF assms ret])
    then have "length (map fst m) = length (map format_day [?a..?b])"
      by (simp only:)
    then have len: "length m = nat (?b - ?a + 1)"
      by simp
    have dist: "distinct (map fst m)"
      unfolding k by (rule format_day_distinct)
    have nth: "fst (m ! i) = format_day (?a + int i)" if "i < length m" for i
    proof -
      from that len ab have le: "?a + int i \<le> ?b"
        by linarith
      have "fst (m ! i) = map fst m ! i"
        using that by simp
      also have "\<dots> = format_day ([?a..?b] ! i)"
        using that len by (simp add: k)
      also have "[?a..?b] ! i = ?a + int i"
        by (rule nth_upto [OF le])
      finally show ?thesis .
    qed
    from k len dist nth show ?thesis
      by blast
  qed
  have either: "mapPlans (Some f) (Some t) plans = Inl TypeError
          \<or> (\<exists>m. mapPlans (Some f) (Some t) plans = Inr m
                \<and> map fst m = map format_day [?a..?b]
                \<and> length m = nat (?b - ?a + 1)
                \<and> distinct (map fst m)
                \<and> (\<forall>i<length m. fst (m ! i) = format_day (?a + int i)))"
  proof (cases "mapPlans (Some f) (Some t) plans")
    case (Inl e)
    with mapPlans_error [OF Inl] show ?thesis
      by simp
  next
    case (Inr m)
    with keys [OF Inr] show ?thesis
      by blast
  qed
  have empty: "mapPlans (Some f) (Some t) []
            = Inr (map (\<lambda>k. (format_day k, [])) [?a..?b])"
    by (simp add: mapPlans_def Let_def init_days_query [OF assms])
  from either mapPlans_TypeError_iff [OF assms, of plans] empty show ?thesis
    by (intro conjI)
qed

theorem day_mapping_keys_or_type_error_witness:
  "(1578650000000::int) \<le> 1578800000000
   \<and> mapPlans (Some 1578650000000) (Some 1578800000000)
        [\<lparr>planItem_self = ''https://api.tempo.io/core/3/issue/ABC-123'',
          description = ''Fix bug'', secondsPerDay = 7200,
          dates_values = [\<lparr>dv_from = ''2020-01-11'', dv_to = ''2020-01-11'',
                            timePlannedSeconds = Some 7200\<rparr>]\<rparr>,
         \<lparr>planItem_self = ''https://api.tempo.io/core/3/issue/ABC-124'',
          description = ''Write docs'', secondsPerDay = 3600,
          dates_values = [\<lparr>dv_from = ''2020-01-20'', dv_to = ''2020-01-21'',
                            timePlannedSeconds = Some 7200\<rparr>]\<rparr>]
       = Inl TypeError
   \<and> (\<exists>p\<in>set
        [\<lparr>planItem_self = ''https://api.tempo.io/core/3/issue/ABC-123'',
          description = ''Fix bug'', secondsPerDay = 7200,
          dates_values = [\<lparr>dv_from = ''2020-01-11'', dv_to = ''2020-01-11'',
                            timePlannedSeconds = Some 7200\<rparr>]\<rparr>,
         \<lparr>planItem_self = ''https://api.tempo.io/core/3/issue/ABC-124'',
          description = ''Write docs'', secondsPerDay = 3600,
          dates_values = [\<lparr>dv_from = ''2020-01-20'', dv_to = ''2020-01-21'',
                            timePlannedSeconds = Some 7200\<rparr>]\<rparr>].
        \<exists>v\<in>set (dates_values p). planDateRange v \<noteq> None \<and>
          \<not> (\<exists>x y. moment_parse (dv_from v) = Some x \<and> moment_parse (dv_to v) = Some y
             \<and> 1578650000000 div msPerDay \<le> max (x div msPerDay) (y div msPerDay)
             \<and> min (x div msPerDay) (y div msPerDay) \<le> 1578800000000 div msPerDay))
   \<and> mapPlans (Some 1578650000000) (Some 1578800000000)
        [\<lparr>planItem_self = ''https://api.tempo.io/core/3/issue/ABC-123'',
          description = ''Fix bug'', secondsPerDay = 7200,
          dates_values = [\<lparr>dv_from = ''2020-01-11'', dv_to = ''2020-01-11'',
                            timePlannedSeconds = Some 7200\<rparr>]\<rparr>]
       = Inr [(''2020-01-10'', []),
              (''2020-01-11'',
                 [\<lparr>task = ''https://api.tempo.io/core/3/issue/ABC-123'',
                   taskKey = ''ABC-123'', pd_description = ''Fix bug'',
                   pd_secondsPerDay = 7200, plannedTime = ''2 hours''\<rparr>]),
              (''2020-01-12'', [])]
   \<and> map format_day [1578650000000 div msPerDay..1578800000000 div msPerDay]
       = [''2020-01-10'', ''2020-01-11'', ''2020-01-12'']"
proof -
  let ?A = "\<lparr>planItem_self = ''https://api.tempo.io/core/3/issue/ABC-123'',
          description = ''Fix bug'', secondsPerDay = 7200,
          dates_values = [\<lparr>dv_from = ''2020-01-11'', dv_to = ''2020-01-11'',
                            timePlannedSeconds = Some 7200\<rparr>]\<rparr>"
  let ?B = "\<lparr>planItem_self = ''https://api.tempo.io/core/3/issue/ABC-124'',
          description = ''Write docs'', secondsPerDay = 3600,
          dates_values = [\<lparr>dv_from = ''2020-01-20'', dv_to = ''2020-01-21'',
                            timePlannedSeconds = Some 7200\<rparr>]\<rparr>"
  let ?m = "[(''2020-01-10'', []),
              (''2020-01-11'',
                 [\<lparr>task = ''https://api.tempo.io/core/3/issue/ABC-123'',
                   taskKey = ''ABC-123'', pd_description = ''Fix bug'',
                   pd_secondsPerDay = 7200, plannedTime = ''2 hours''\<rparr>]),
              (''2020-01-12'', [])]"
  have le: "(1578650000000::int) \<le> 1578800000000"
    by simp
  have bad: "mapPlans (Some 1578650000000) (Some 1578800000000) [?A, ?B] = Inl TypeError"
    by code_simp
  have good: "mapPlans (Some 1578650000000) (Some 1578800000000) [?A] = Inr ?m"
    by code_simp
  from day_mapping_keys_or_type_error [OF le, of "[?A, ?B]"] bad
  have ex: "\<exists>p\<in>set [?A, ?B]. \<exists>v\<in>set (dates_values p). planDateRange v \<noteq> None \<and>
          \<not> (\<exists>x y. moment_parse (dv_from v) = Some x \<and> moment_parse (dv_to v) = Some y
             \<and> 1578650000000 div msPerDay \<le> max (x div msPerDay) (y div msPerDay)
             \<and> min (x div msPerDay) (y div msPerDay) \<le> 1578800000000 div msPerDay)"
    by blast
  from day_mapping_keys_or_type_error [OF le, of "[?A]"] good
  have "map fst ?m = map format_day [1578650000000 div msPerDay..1578800000000 div msPerDay]"
    by auto
  then have keys: "map format_day [1578650000000 div msPerDay..1578800000000 div msPerDay]
      = [''2020-01-10'', ''2020-01-11'', ''2020-01-12'']"
    by simp
  from le bad ex good keys show ?thesis
    by (intro conjI)
qed

text \<open>
  C1, as amended. For a sub-range with planned seconds and two valid dates, every
  calendar day that lies both in the sub-range and in the query interval holds, in the
  mapping \<open>mapPlans\<close> returns, the item built from the plan, and the humanized duration of
  that item is derived from the \<open>secondsPerDay\<close> of the plan record (the planned seconds of
  the sub-range only decide whether the sub-range is read at all). A plan with 7200
  seconds per day and the one sub-range (2020-01-11, 2020-01-11, 7200 seconds), queried
  over 2020-01-10 to 2020-01-12, gives exactly one item on 2020-01-11, with key
  \<open>ABC-123\<close> and duration \<open>2 hours\<close>, and nothing on the other two days.
\<close>

theorem planned_item_from_plan_seconds:
  assumes "f \<le> t"
    and "mapPlans (Some f) (Some t) plans = Inr m"
    and "p \<in> set plans" and "v \<in> set (dates_values p)"
    and "timePlannedSeconds v = Some s" and "s \<noteq> 0"
    and "moment_parse (dv_from v) = Some x" and "moment_parse (dv_to v) = Some y"
    and "max (f div msPerDay) (min (x div msPerDay) (y div msPerDay)) \<le> k"
    and "k \<le> min (t div msPerDay) (max (x div msPerDay) (y div msPerDay))"
  shows "(\<exists>items. map_of m (format_day k) = Some items
            \<and> make_planData p \<in> set items
            \<and> plannedTime (make_planData p) = humanize (secondsPerDay p))
       \<and> mapPlans (moment_parse ''2020-01-10'') (moment_parse ''2020-01-12'')
           [\<lparr>planItem_self = ''https://api.tempo.io/core/3/issue/ABC-123'',
             description = ''Fix bug'', secondsPerDay = 7200,
             dates_values = [\<lparr>dv_from = ''2020-01-11'', dv_to = ''2020-01-11'',
                               timePlannedSeconds = Some 7200\<rparr>]\<rparr>]
           = Inr [(''2020-01-10'', []),
                  (''2020-01-11'',
                     [\<lparr>task = ''https://api.tempo.io/core/3/issue/ABC-123'',
                       taskKey = ''ABC-123'', pd_description = ''Fix bug'',
                       pd_secondsPerDay = 7200, plannedTime = ''2 hours''\<rparr>]),
                  (''2020-01-12'', [])]"
proof -
  from assms(9,10)
  have k: "k \<in> {max (f div msPerDay) (min (x div msPerDay) (y div msPerDay))
              ..min (t div msPerDay) (max (x div msPerDay) (y div msPerDay))}"
    by simp
  from mapPlans_item_days(2) [OF assms(1-8)] k
  obtain items where "map_of m (format_day k) = Some items" and "make_planData p \<in> set items"
    by blast
  moreover have "plannedTime (make_planData p) = humanize (secondsPerDay p)"
    by (simp add: make_planData_def)
  moreover have "mapPlans (moment_parse ''2020-01-10'') (moment_parse ''2020-01-12'')
           [\<lparr>planItem_self = ''https://api.tempo.io/core/3/issue/ABC-123'',
             description = ''Fix bug'', secondsPerDay = 7200,
             dates_values = [\<lparr>dv_from = ''2020-01-11'', dv_to = ''2020-01-11'',
                               timePlannedSeconds = Some 7200\<rparr>]\<rparr>]
           = Inr [(''2020-01-10'', []),
                  (''2020-01-11'',
                     [\<lparr>task = ''https://api.tempo.io/core/3/issue/ABC-123'',
                       taskKey = ''ABC-123'', pd_description = ''Fix bug'',
                       pd_secondsPerDay = 7200, plannedTime = ''2 hours''\<rparr>]),
                  (''2020-01-12'', [])]"
    by code_simp
  ultimately show ?thesis
    by blast
qed


theorem planned_item_from_plan_seconds_witness:
  "mapPlans (Some 1578614400000) (Some 1578787200000)
     [\<lparr>planItem_self = ''https://api.tempo.io/core/3/issue/ABC-123'',
       description = ''Fix bug'', secondsPerDay = 28800,
       dates_values = [\<lparr>dv_from = ''2020-01-11'', dv_to = ''2020-01-09'',
                         timePlannedSeconds = Some 86400\<rparr>]\<rparr>]
     = Inr [(''2020-01-10'',
               [\<lparr>task = ''https://api.tempo.io/core/3/issue/ABC-123'', taskKey = ''ABC-123'',
                 pd_description = ''Fix bug'', pd_secondsPerDay = 28800,
                 plannedTime = ''8 hours''\<rparr>]),
            (''2020-01-11'',
               [\<lparr>task = ''https://api.tempo.io/core/3/issue/ABC-123'', taskKey = ''ABC-123'',
                 pd_description = ''Fix bug'', pd_secondsPerDay = 28800,
                 plannedTime = ''8 hours''\<rparr>]),
            (''2020-01-12'', [])]
   \<and> (\<exists>items.
         map_of [(''2020-01-10'',
               [\<lparr>task = ''https://api.tempo.io/core/3/issue/ABC-123'', taskKey = ''ABC-123'',
                 pd_description = ''Fix bug'', pd_secondsPerDay = 28800,
                 plannedTime = ''8 hours''\<rparr>]),
            (''2020-01-11'',
               [\<lparr>task = ''https://api.tempo.io/core/3/issue/ABC-123'', taskKey = ''ABC-123'',
                 pd_description = ''Fix bug'', pd_secondsPerDay = 28800,
                 plannedTime = ''8 hours''\<rparr>]),
            (''2020-01-12'', [])] (format_day 18271) = Some items
         \<and> make_planData
              \<lparr>planItem_self = ''https://api.tempo.io/core/3/issue/ABC-123'',
               description = ''Fix bug'', secondsPerDay = 28800,
               dates_values = [\<lparr>dv_from = ''2020-01-11'', dv_to = ''2020-01-09'',
                                 timePlannedSeconds = Some 86400\<rparr>]\<rparr> \<in> set items)
   \<and> format_day 18271 = ''2020-01-10''"
proof -
  let ?v = "\<lparr>dv_from = ''2020-01-11'', dv_to = ''2020-01-09'',
             timePlannedSeconds = Some 86400\<rparr>"
  let ?p = "\<lparr>planItem_self = ''https://api.tempo.io/core/3/issue/ABC-123'',
             description = ''Fix bug'', secondsPerDay = 28800, dates_values = [?v]\<rparr>"
  let ?item = "\<lparr>task = ''https://api.tempo.io/core/3/issue/ABC-123'', taskKey = ''ABC-123'',
                 pd_description = ''Fix bug'', pd_secondsPerDay = 28800,
                 plannedTime = ''8 hours''\<rparr>"
  let ?m = "[(''2020-01-10'', [?item]), (''2020-01-11'', [?item]), (''2020-01-12'', [])]"
  have h1: "(1578614400000::int) \<le> 1578787200000"
    by simp
  have h2: "mapPlans (Some 1578614400000) (Some 1578787200000) [?p] = Inr ?m"
    by code_simp
  have h3: "?p \<in> set [?p]"
    by simp
  have h4: "?v \<in> set (dates_values ?p)"
    by simp
  have h5: "timePlannedSeconds ?v = Some 86400"
    by simp
  have h6: "(86400::int) \<noteq> 0"
    by simp
  have h7: "moment_parse (dv_from ?v) = Some 1578700800000"
    by code_simp
  have h8: "moment_parse (dv_to ?v) = Some 1578528000000"
    by code_simp
  have h9: "max ((1578614400000::int) div msPerDay)
              (min (1578700800000 div msPerDay) (1578528000000 div msPerDay)) \<le> 18271"
    by (simp add: msPerDay_def)
  have h10: "(18271::int) \<le> min (1578787200000 div msPerDay)
              (max (1578700800000 div msPerDay) (1578528000000 div msPerDay))"
    by (simp add: msPerDay_def)
  have fd: "format_day 18271 = ''2020-01-10''"
    by code_simp
  from planned_item_from_plan_seconds [OF h1 h2 h3 h4 h5 h6 h7 h8 h9 h10]
  have "\<exists>items. map_of ?m (format_day 18271) = Some items \<and> make_planData ?p \<in> set items"
    by blast
  with h2 fd show ?thesis
    by blast
qed

text \<open>
  C1 as first stated fails: with 3600 seconds per day on the plan and 7200 planned seconds
  on its sub-range, the item on 2020-01-11 reads \<open>an hour\<close>, the rendering of the plan's
  3600, and not \<open>2 hours\<close>, the rendering of the sub-range's 7200.
\<close>

theorem subrange_seconds_not_shown_counterexample:
  "mapPlans (moment_parse ''2020-01-10'') (moment_parse ''2020-01-12'')
     [\<lparr>planItem_self = ''https://api.tempo.io/core/3/issue/ABC-123'',
       description = ''Fix bug'', secondsPerDay = 3600,
       dates_values = [\<lparr>dv_from = ''2020-01-11'', dv_to = ''2020-01-11'',
                         timePlannedSeconds = Some 7200\<rparr>]\<rparr>]
     = Inr [(''2020-01-10'', []),
            (''2020-01-11'',
               [\<lparr>task = ''https://api.tempo.io/core/3/issue/ABC-123'', taskKey = ''ABC-123'',
                 pd_description = ''Fix bug'', pd_secondsPerDay = 3600,
                 plannedTime = ''an hour''\<rparr>]),
            (''2020-01-12'', [])]
   \<and> humanize 7200 = ''2 hours''
   \<and> humanize 3600 = ''an hour''
   \<and> humanize 7200 \<noteq> humanize 3600"
  by code_simp

text \<open>
  C2 does not hold of the code. When a sub-range with planned seconds and two valid dates
  lies wholly before or wholly after the query interval, its intersection with the query
  range is \<open>null\<close>, and \<open>mapPlans\<close> raises a \<open>TypeError\<close> on reading \<open>by\<close> of it instead
  of skipping the sub-range; no mapping is returned, whatever the other plans are.
\<close>

theorem mapPlans_raises_outside_window:
  assumes "f \<le> t"
    and "p \<in> set plans" and "v \<in> set (dates_values p)"
    and "timePlannedSeconds v = Some s" and "s \<noteq> 0"
    and "moment_parse (dv_from v) = Some x" and "moment_parse (dv_to v) = Some y"
    and "max (x div msPerDay) (y div msPerDay) < f div msPerDay
         \<or> t div msPerDay < min (x div msPerDay) (y div msPerDay)"
  shows "intersect (moment_range (startOf_day (Some f)) (endOf_day (Some t)))
                   (the (planDateRange v)) = None
       \<and> mapPlans (Some f) (Some t) plans = Inl TypeError"
proof -
  let ?q = "moment_range (startOf_day (Some f)) (endOf_day (Some t))"
  obtain r where r: "planDateRange v = Some r"
    using planDateRange_days [OF assms(4-7)] by blast
  have none: "intersect ?q (the (planDateRange v)) = None"
    by (simp only: window_intersect [OF assms(1) assms(4-7)] if_P [OF assms(8)])
  then have "intersect ?q r = None"
    by (simp only: r option.sel)
  from map_each_plan_disjoint [OF assms(2) planDateRange_in_ranges [OF assms(3) r] this]
  have "mapPlans (Some f) (Some t) plans = Inl TypeError"
    by (simp add: mapPlans_def Let_def)
  with none show ?thesis
    by simp
qed

theorem mapPlans_raises_outside_window_witness:
  "mapPlans (Some 1578614400000) (Some 1578787200000)
     [\<lparr>planItem_self = ''https://api.tempo.io/core/3/issue/ABC-123'',
       description = ''Fix bug'', secondsPerDay = 3600,
       dates_values = [\<lparr>dv_from = ''2020-01-20'', dv_to = ''2020-01-20'',
                         timePlannedSeconds = Some 3600\<rparr>]\<rparr>]
     = Inl TypeError
   \<and> moment_parse ''2020-01-10'' = Some 1578614400000
   \<and> moment_parse ''2020-01-12'' = Some 1578787200000
   \<and> moment_parse ''2020-01-20'' = Some 1579478400000"
proof -
  let ?v = "\<lparr>dv_from = ''2020-01-20'', dv_to = ''2020-01-20'',
             timePlannedSeconds = Some 3600\<rparr>"
  let ?p = "\<lparr>planItem_self = ''https://api.tempo.io/core/3/issue/ABC-123'',
             description = ''Fix bug'', secondsPerDay = 3600, dates_values = [?v]\<rparr>"
  have h1: "(1578614400000::int) \<le> 1578787200000"
    by simp
  have h2: "?p \<in> set [?p]"
    by simp
  have h3: "?v \<in> set (dates_values ?p)"
    by simp
  have h4: "timePlannedSeconds ?v = Some 3600"
    by simp
  have h5: "(3600::int) \<noteq> 0"
    by simp
  have h6: "moment_parse (dv_from ?v) = Some 1579478400000"
    by code_simp
  have h7: "moment_parse (dv_to ?v) = Some 1579478400000"
    by code_simp
  have h8: "max ((1579478400000::int) div msPerDay) (1579478400000 div msPerDay)
              < 1578614400000 div msPerDay
            \<or> (1578787200000::int) div msPerDay
              < min (1579478400000 div msPerDay) (1579478400000 div msPerDay)"
    by (simp add: msPerDay_def)
  have p1: "moment_parse ''2020-01-10'' = Some 1578614400000"
    by code_simp
  have p2: "moment_parse ''2020-01-12'' = Some 1578787200000"
    by code_simp
  have p3: "moment_parse ''2020-01-20'' = Some 1579478400000"
    by code_simp
  from mapPlans_raises_outside_window [OF h1 h2 h3 h4 h5 h6 h7 h8]
  have "mapPlans (Some 1578614400000) (Some 1578787200000) [?p] = Inl TypeError"
    by blast
  with p1 p2 p3 show ?thesis
    by blast
qed


end
